theory Spec2Isabelle
  imports Complex_Main
begin

section \<open>Python values, dictionaries and exceptions\<close>

text \<open>
  The JSON values that occur as shape identifiers and grid cells: \<open>null\<close>, an integer or a
  string. Python compares them with \<open>==\<close>, which on these values is structural equality.
  A dictionary decoded from JSON is an association list in insertion order; its keys are
  distinct. Exceptions are values of the type \<open>error\<close>.
\<close>

datatype error =
  AttributeError | DoesNotExist | MultipleObjectsReturned | Http404 | IntegrityError

datatype pyval = PNone | PInt int | PStr string

type_synonym pydict = "(string \<times> pyval) list"

text \<open>\<^verbatim>\<open>d.get(key)\<close>: the stored value, \<open>None\<close> for a missing key.\<close>

definition py_get :: "pydict \<Rightarrow> string \<Rightarrow> pyval" where
  "py_get d key = (case map_of d key of None \<Rightarrow> PNone | Some v \<Rightarrow> v)"

text \<open>\<^verbatim>\<open>d[key] = v\<close>: overwrite the entry of an existing key, append a new one.\<close>

fun py_set :: "(string \<times> 'v) list \<Rightarrow> string \<Rightarrow> 'v \<Rightarrow> (string \<times> 'v) list" where
  "py_set [] key v = [(key, v)]"
| "py_set ((k, w) # d) key v = (if k = key then (k, v) # d else (k, w) # py_set d key v)"

text \<open>
  One entry of the placement payload. The client sends an object such as
  \<^verbatim>\<open>{"shapeId": 3}\<close>; the request body is arbitrary JSON, so the entry may also be a
  bare value, on which \<^verbatim>\<open>placement.get\<close> raises \<open>AttributeError\<close>.
\<close>

datatype placement = PObject pydict | PValue pyval

fun placement_get :: "placement \<Rightarrow> string \<Rightarrow> error + pyval" where
  "placement_get (PObject d) key = Inr (py_get d key)"
| "placement_get (PValue v) key = Inl AttributeError"

type_synonym placements = "(string \<times> placement) list"

text \<open>
  Python's \<^verbatim>\<open>round(x, 2)\<close>, on exact rationals: the nearest multiple of 1/100, a tie going
  to the even one. The source computes on binary floating point numbers; the model keeps the
  arithmetic exact.
\<close>

definition py_round2 :: "rat \<Rightarrow> rat" where
  "py_round2 x =
     (let y = x * 100; f = \<lfloor>y\<rfloor>; d = y - of_int f
      in of_int (if d < 1 / 2 then f else if 1 / 2 < d then f + 1
                 else if even f then f else f + 1) / 100)"

section \<open>Grid templates and shape games (games/models.py)\<close>

record grid_template =
  grid_data :: "pyval list list"

record shape_game =
  sg_id :: nat
  sg_is_active :: bool
  sg_grid_template :: grid_template
  solution_data :: pydict
  points_per_correct :: int
  penalty_per_wrong :: int

section \<open>The placement validator (games/views.py, validate\_shape\_placement)\<close>

record placement_detail =
  correct :: bool
  expected :: pyval
  placed :: pyval

record validation_result =
  accuracy :: rat
  final_score :: int
  correct_count :: int
  incorrect_count :: int
  total_questions :: int
  is_complete :: bool
  is_perfect :: bool
  validation_details :: "(string \<times> placement_detail) list option"
  vr_error :: "error option"

text \<open>The two nested loops that count the cells equal to \<^verbatim>\<open>'?'\<close>.\<close>

fun count_row :: "pyval list \<Rightarrow> int \<Rightarrow> int" where
  "count_row [] tq = tq"
| "count_row (cell # cells) tq =
     count_row cells (if cell = PStr ''?'' then tq + 1 else tq)"

fun count_questions :: "pyval list list \<Rightarrow> int \<Rightarrow> int" where
  "count_questions [] tq = tq"
| "count_questions (row # rows) tq = count_questions rows (count_row row tq)"

text \<open>
  The loop over \<^verbatim>\<open>placements.items()\<close>, with the three variables it updates:
  \<open>correct_count\<close>, \<open>incorrect_count\<close> and \<open>validation_details\<close>. It stops at the first
  entry on which \<^verbatim>\<open>placement.get('shapeId')\<close> raises.
\<close>

fun check_placements ::
  "pydict \<Rightarrow> placements \<Rightarrow> int \<times> int \<times> (string \<times> placement_detail) list \<Rightarrow>
   error + (int \<times> int \<times> (string \<times> placement_detail) list)" where
  "check_placements solution [] acc = Inr acc"
| "check_placements solution ((position, placement) # rest) (cc, ic, details) =
     (let expected_shape_id = py_get solution position
      in case placement_get placement ''shapeId'' of
           Inl e \<Rightarrow> Inl e
         | Inr placed_shape_id \<Rightarrow>
             (let is_correct = (expected_shape_id = placed_shape_id);
                  details' = py_set details position
                    \<lparr>correct = is_correct, expected = expected_shape_id,
                     placed = placed_shape_id\<rparr>
              in if is_correct then check_placements solution rest (cc + 1, ic, details')
                 else check_placements solution rest (cc, ic + 1, details')))"

text \<open>The body of the \<^verbatim>\<open>try\<close> block.\<close>

definition validate_body :: "shape_game \<Rightarrow> placements \<Rightarrow> error + validation_result" where
  "validate_body game placements =
     (let solution = solution_data game;
          tq = count_questions (grid_data (sg_grid_template game)) 0
      in case check_placements solution placements (0, 0, []) of
           Inl e \<Rightarrow> Inl e
         | Inr (cc, ic, details) \<Rightarrow>
             (let acc = (if tq > 0 then (of_int cc / of_int tq) * 100 else 0);
                  correct_points = cc * points_per_correct game;
                  penalty_points = ic * penalty_per_wrong game
              in Inr \<lparr>accuracy = py_round2 acc,
                      final_score = max 0 (correct_points - penalty_points),
                      correct_count = cc,
                      incorrect_count = ic,
                      total_questions = tq,
                      is_complete = (int (length placements) = tq),
                      is_perfect = (ic = 0 \<and> int (length placements) = tq),
                      validation_details = Some details,
                      vr_error = None\<rparr>))"

text \<open>The dictionary returned by the \<^verbatim>\<open>except Exception\<close> branch.\<close>

definition failed_result :: "error \<Rightarrow> validation_result" where
  "failed_result e =
     \<lparr>accuracy = 0, final_score = 0, correct_count = 0, incorrect_count = 0,
      total_questions = 0, is_complete = False, is_perfect = False,
      validation_details = None, vr_error = Some e\<rparr>"

definition validate_shape_placement :: "shape_game \<Rightarrow> placements \<Rightarrow> validation_result" where
  "validate_shape_placement game placements =
     (case validate_body game placements of
        Inr result \<Rightarrow> result
      | Inl e \<Rightarrow> failed_result e)"


section \<open>The tables of the progression system (games/models.py)\<close>

text \<open>
  A table is the list of its rows, each with its primary key. Foreign keys hold the primary
  key of the row they point to. Times are seconds on the server clock; the value that
  \<^verbatim>\<open>timezone.now()\<close> returns is an argument of the operation that calls it.
  Counts and scores are Python integers; the range that a database column accepts is not
  modelled.
\<close>

datatype game_status = IN_PROGRESS | COMPLETED | ABANDONED

record puzzle_level =
  level_id :: nat
  level_number :: int
  puzzles_required :: int
  level_is_active :: bool

record user_level_progress =
  lp_id :: nat
  lp_user :: nat
  lp_level :: nat
  puzzles_completed :: int
  is_completed :: bool
  completed_at :: "int option"
  total_score :: int

record level_puzzle =
  lpz_id :: nat
  lpz_level :: nat

record shape_game_attempt =
  att_id :: nat
  att_user :: nat
  att_shape_game :: nat
  current_state :: placements
  start_time :: int
  end_time :: "int option"
  att_status :: game_status
  att_score :: int
  att_accuracy :: rat
  correct_placements :: int
  incorrect_placements :: int
  time_taken_seconds :: int

record user_puzzle_attempt =
  upa_id :: nat
  upa_user :: nat
  upa_level_puzzle :: nat
  upa_shape_game_attempt :: nat
  upa_is_completed :: bool
  score_earned :: int
  upa_completed_at :: "int option"

record achievement =
  ach_id :: nat
  points_reward :: int
  requirement_type :: string
  requirement_value :: int
  ach_is_active :: bool

record user_achievement =
  ua_id :: nat
  ua_user :: nat
  ua_achievement :: nat

record user =
  user_id :: nat
  user_total_score :: int

record db =
  levels :: "puzzle_level list"
  level_progress :: "user_level_progress list"
  level_puzzles :: "level_puzzle list"
  puzzle_attempts :: "user_puzzle_attempt list"
  shape_games :: "shape_game list"
  shape_attempts :: "shape_game_attempt list"
  achievements :: "achievement list"
  user_achievements :: "user_achievement list"
  users :: "user list"

text \<open>
  \<^verbatim>\<open>Model.objects.get(...)\<close> on the rows that match: the single row, \<open>DoesNotExist\<close> for
  none, \<open>MultipleObjectsReturned\<close> for several.
\<close>

fun objects_get :: "'a list \<Rightarrow> error + 'a" where
  "objects_get [] = Inl DoesNotExist"
| "objects_get [x] = Inr x"
| "objects_get (x # y # zs) = Inl MultipleObjectsReturned"

text \<open>The key of a new row: one more than the largest key of the table.\<close>

definition next_pk :: "nat list \<Rightarrow> nat" where
  "next_pk ids = Suc (fold max ids 0)"

text \<open>
  \<^verbatim>\<open>instance.save()\<close>: the row with the instance's primary key takes the instance's fields;
  an instance whose key is in no row is inserted.
\<close>

definition save_row :: "('a \<Rightarrow> nat) \<Rightarrow> 'a \<Rightarrow> 'a list \<Rightarrow> 'a list" where
  "save_row pk self rows =
     (if pk self \<in> set (map pk rows)
      then map (\<lambda>r. if pk r = pk self then self else r) rows
      else rows @ [self])"

subsection \<open>PuzzleLevel.is\_unlocked\_for\_user\<close>

definition is_unlocked_for_user :: "puzzle_level \<Rightarrow> nat \<Rightarrow> db \<Rightarrow> error + bool" where
  "is_unlocked_for_user self usr d =
     (if level_number self = 1 then Inr True
      else
        (let previous_level = level_number self - 1
         in if previous_level \<le> 0 then Inr True
            else
              (case objects_get (filter (\<lambda>l. level_number l = previous_level) (levels d)) of
                 Inr prev_level \<Rightarrow>
                   Inr (filter (\<lambda>r. lp_user r = usr \<and> lp_level r = level_id prev_level
                                      \<and> is_completed r) (level_progress d) \<noteq> [])
               | Inl e \<Rightarrow> if e = DoesNotExist then Inr True else Inl e)))"

subsection \<open>UserLevelProgress.check\_completion and unlock\_next\_level\<close>

text \<open>\<^verbatim>\<open>self.level\<close>: the row of the level table that the foreign key names.\<close>

definition level_of :: "db \<Rightarrow> user_level_progress \<Rightarrow> error + puzzle_level" where
  "level_of d self = objects_get (filter (\<lambda>l. level_id l = lp_level self) (levels d))"

text \<open>
  \<^verbatim>\<open>UserLevelProgress.objects.get_or_create(user=..., level=...,
  defaults={'puzzles_completed': 0, 'is_completed': False})\<close>: the row and whether it was
  created.
\<close>

definition get_or_create_progress ::
  "nat \<Rightarrow> nat \<Rightarrow> db \<Rightarrow> (error + user_level_progress \<times> bool) \<times> db" where
  "get_or_create_progress usr lvl d =
     (case objects_get (filter (\<lambda>r. lp_user r = usr \<and> lp_level r = lvl) (level_progress d)) of
        Inr r \<Rightarrow> (Inr (r, False), d)
      | Inl e \<Rightarrow>
          if e = DoesNotExist then
            (let r = \<lparr>lp_id = next_pk (map lp_id (level_progress d)), lp_user = usr,
                      lp_level = lvl, puzzles_completed = 0, is_completed = False,
                      completed_at = None, total_score = 0\<rparr>
             in (Inr (r, True), d\<lparr>level_progress := level_progress d @ [r]\<rparr>))
          else (Inl e, d))"

definition unlock_next_level :: "user_level_progress \<Rightarrow> db \<Rightarrow> (error + unit) \<times> db" where
  "unlock_next_level self d =
     (case level_of d self of
        Inl e \<Rightarrow> (Inl e, d)
      | Inr lvl \<Rightarrow>
          (let next_level_number = level_number lvl + 1
           in case objects_get (filter (\<lambda>l. level_number l = next_level_number
                                              \<and> level_is_active l) (levels d)) of
                Inl e \<Rightarrow> if e = DoesNotExist then (Inr (), d) else (Inl e, d)
              | Inr next_level \<Rightarrow>
                  (case get_or_create_progress (lp_user self) (level_id next_level) d of
                     (Inl e, d') \<Rightarrow> (Inl e, d')
                   | (Inr created, d') \<Rightarrow> (Inr (), d'))))"

definition check_completion ::
  "user_level_progress \<Rightarrow> int \<Rightarrow> db \<Rightarrow> (error + user_level_progress) \<times> db" where
  "check_completion self now d =
     (case level_of d self of
        Inl e \<Rightarrow> (Inl e, d)
      | Inr lvl \<Rightarrow>
          if puzzles_completed self \<ge> puzzles_required lvl \<and> \<not> is_completed self then
            (let self' = self\<lparr>is_completed := True, completed_at := Some now\<rparr>;
                 d' = d\<lparr>level_progress := save_row lp_id self' (level_progress d)\<rparr>
             in case unlock_next_level self' d' of
                  (Inl e, d'') \<Rightarrow> (Inl e, d'')
                | (Inr u, d'') \<Rightarrow> (Inr self', d''))
          else (Inr self, d))"

subsection \<open>UserPuzzleAttempt.complete\_attempt\<close>

text \<open>
  \<^verbatim>\<open>self.level_puzzle.level\<close> and \<^verbatim>\<open>self.user\<close>: two foreign keys followed to their rows.
\<close>

definition level_of_attempt :: "db \<Rightarrow> user_puzzle_attempt \<Rightarrow> error + nat" where
  "level_of_attempt d self =
     (case objects_get (filter (\<lambda>p. lpz_id p = upa_level_puzzle self) (level_puzzles d)) of
        Inl e \<Rightarrow> Inl e
      | Inr lpz \<Rightarrow>
          (case objects_get (filter (\<lambda>l. level_id l = lpz_level lpz) (levels d)) of
             Inl e \<Rightarrow> Inl e
           | Inr lvl \<Rightarrow> Inr (level_id lvl)))"

definition user_of_attempt :: "db \<Rightarrow> user_puzzle_attempt \<Rightarrow> error + user" where
  "user_of_attempt d self = objects_get (filter (\<lambda>u. user_id u = upa_user self) (users d))"

definition complete_attempt ::
  "user_puzzle_attempt \<Rightarrow> int \<Rightarrow> int \<Rightarrow> db \<Rightarrow> (error + user_puzzle_attempt) \<times> db" where
  "complete_attempt self score now d =
     (if \<not> upa_is_completed self then
        (let self' = self\<lparr>upa_is_completed := True, score_earned := score,
                          upa_completed_at := Some now\<rparr>;
             d1 = d\<lparr>puzzle_attempts := save_row upa_id self' (puzzle_attempts d)\<rparr>
         in case user_of_attempt d1 self' of
              Inl e \<Rightarrow> (Inl e, d1)
            | Inr usr \<Rightarrow>
                (case level_of_attempt d1 self' of
                   Inl e \<Rightarrow> (Inl e, d1)
                 | Inr lvl \<Rightarrow>
                     (case get_or_create_progress (user_id usr) lvl d1 of
                        (Inl e, d2) \<Rightarrow> (Inl e, d2)
                      | (Inr (level_progress0, created), d2) \<Rightarrow>
                          (let level_progress1 = level_progress0
                                 \<lparr>puzzles_completed := puzzles_completed level_progress0 + 1,
                                  total_score := total_score level_progress0 + score\<rparr>;
                               d3 = d2\<lparr>level_progress :=
                                        save_row lp_id level_progress1 (level_progress d2)\<rparr>
                           in case check_completion level_progress1 now d3 of
                                (Inl e, d4) \<Rightarrow> (Inl e, d4)
                              | (Inr lp, d4) \<Rightarrow>
                                  (let usr' = usr\<lparr>user_total_score :=
                                                     user_total_score usr + score\<rparr>
                                   in (Inr self',
                                       d4\<lparr>users := save_row user_id usr' (users d4)\<rparr>))))))
      else (Inr self, d))"

section \<open>The second progression module (games/level\_models.py)\<close>

text \<open>
  The module repeats the classes of games/models.py. It imports \<^verbatim>\<open>models\<close> from
  \<^verbatim>\<open>django.db\<close> and no \<^verbatim>\<open>timezone\<close>, and reads the clock as
  \<^verbatim>\<open>models.timezone.now()\<close>: an attribute lookup on the module \<^verbatim>\<open>django.db.models\<close>.
  Django is not part of the repository, so the names that module binds are a parameter
  \<open>ns\<close>; looking up a name it does not bind raises \<open>AttributeError\<close>.
\<close>

type_synonym namespace = "string list"

definition module_getattr :: "namespace \<Rightarrow> string \<Rightarrow> error + unit" where
  "module_getattr ns name = (if name \<in> set ns then Inr () else Inl AttributeError)"

definition lm_unlock_next_level :: "user_level_progress \<Rightarrow> db \<Rightarrow> (error + unit) \<times> db" where
  "lm_unlock_next_level self d =
     (case level_of d self of
        Inl e \<Rightarrow> (Inl e, d)
      | Inr lvl \<Rightarrow>
          (let next_level_number = level_number lvl + 1
           in case objects_get (filter (\<lambda>l. level_number l = next_level_number
                                              \<and> level_is_active l) (levels d)) of
                Inl e \<Rightarrow> if e = DoesNotExist then (Inr (), d) else (Inl e, d)
              | Inr next_level \<Rightarrow>
                  (case get_or_create_progress (lp_user self) (level_id next_level) d of
                     (Inl e, d') \<Rightarrow> (Inl e, d')
                   | (Inr created, d') \<Rightarrow> (Inr (), d'))))"

text \<open>
  The assignment \<^verbatim>\<open>self.is_completed = True\<close> before the failing lookup changes the
  instance in memory only; no \<^verbatim>\<open>save()\<close> has run when the exception leaves the method.
\<close>

definition lm_check_completion ::
  "namespace \<Rightarrow> user_level_progress \<Rightarrow> int \<Rightarrow> db \<Rightarrow> (error + user_level_progress) \<times> db" where
  "lm_check_completion ns self now d =
     (case level_of d self of
        Inl e \<Rightarrow> (Inl e, d)
      | Inr lvl \<Rightarrow>
          if puzzles_completed self \<ge> puzzles_required lvl \<and> \<not> is_completed self then
            (case module_getattr ns ''timezone'' of
               Inl e \<Rightarrow> (Inl e, d)
             | Inr tz \<Rightarrow>
                 (let self' = self\<lparr>is_completed := True, completed_at := Some now\<rparr>;
                      d' = d\<lparr>level_progress := save_row lp_id self' (level_progress d)\<rparr>
                  in case lm_unlock_next_level self' d' of
                       (Inl e, d'') \<Rightarrow> (Inl e, d'')
                     | (Inr u, d'') \<Rightarrow> (Inr self', d'')))
          else (Inr self, d))"

definition lm_complete_attempt ::
  "namespace \<Rightarrow> user_puzzle_attempt \<Rightarrow> int \<Rightarrow> int \<Rightarrow> db \<Rightarrow>
   (error + user_puzzle_attempt) \<times> db" where
  "lm_complete_attempt ns self score now d =
     (if \<not> upa_is_completed self then
        (case module_getattr ns ''timezone'' of
           Inl e \<Rightarrow> (Inl e, d)
         | Inr tz \<Rightarrow>
        (let self' = self\<lparr>upa_is_completed := True, score_earned := score,
                          upa_completed_at := Some now\<rparr>;
             d1 = d\<lparr>puzzle_attempts := save_row upa_id self' (puzzle_attempts d)\<rparr>
         in case user_of_attempt d1 self' of
              Inl e \<Rightarrow> (Inl e, d1)
            | Inr usr \<Rightarrow>
                (case level_of_attempt d1 self' of
                   Inl e \<Rightarrow> (Inl e, d1)
                 | Inr lvl \<Rightarrow>
                     (case get_or_create_progress (user_id usr) lvl d1 of
                        (Inl e, d2) \<Rightarrow> (Inl e, d2)
                      | (Inr (level_progress0, created), d2) \<Rightarrow>
                          (let level_progress1 = level_progress0
                                 \<lparr>puzzles_completed := puzzles_completed level_progress0 + 1,
                                  total_score := total_score level_progress0 + score\<rparr>;
                               d3 = d2\<lparr>level_progress :=
                                        save_row lp_id level_progress1 (level_progress d2)\<rparr>
                           in case lm_check_completion ns level_progress1 now d3 of
                                (Inl e, d4) \<Rightarrow> (Inl e, d4)
                              | (Inr lp, d4) \<Rightarrow>
                                  (let usr' = usr\<lparr>user_total_score :=
                                                     user_total_score usr + score\<rparr>
                                   in (Inr self',
                                       d4\<lparr>users := save_row user_id usr' (users d4)\<rparr>)))))))
      else (Inr self, d))"

section \<open>Sequences of core operations\<close>

text \<open>
  A call of one of the three core methods, in either module, on the row with the given
  primary key: the instance is loaded from the table, the method runs, and whatever it saved
  before returning or raising stays in the database. A call on a key that no row has changes
  nothing.
\<close>

datatype core_module = Models | LevelModels

datatype core_call =
  CompleteAttempt nat int int
| CheckCompletion nat int
| UnlockNextLevel nat

fun exec_call :: "namespace \<Rightarrow> core_module \<times> core_call \<Rightarrow> db \<Rightarrow> db" where
  "exec_call ns (m, CompleteAttempt pk score now) d =
     (case objects_get (filter (\<lambda>a. upa_id a = pk) (puzzle_attempts d)) of
        Inl e \<Rightarrow> d
      | Inr self \<Rightarrow>
          (case m of
             Models \<Rightarrow> snd (complete_attempt self score now d)
           | LevelModels \<Rightarrow> snd (lm_complete_attempt ns self score now d)))"
| "exec_call ns (m, CheckCompletion pk now) d =
     (case objects_get (filter (\<lambda>r. lp_id r = pk) (level_progress d)) of
        Inl e \<Rightarrow> d
      | Inr self \<Rightarrow>
          (case m of
             Models \<Rightarrow> snd (check_completion self now d)
           | LevelModels \<Rightarrow> snd (lm_check_completion ns self now d)))"
| "exec_call ns (m, UnlockNextLevel pk) d =
     (case objects_get (filter (\<lambda>r. lp_id r = pk) (level_progress d)) of
        Inl e \<Rightarrow> d
      | Inr self \<Rightarrow>
          (case m of
             Models \<Rightarrow> snd (unlock_next_level self d)
           | LevelModels \<Rightarrow> snd (lm_unlock_next_level self d)))"

fun run_calls :: "namespace \<Rightarrow> (core_module \<times> core_call) list \<Rightarrow> db \<Rightarrow> db" where
  "run_calls ns [] d = d"
| "run_calls ns (c # cs) d = run_calls ns cs (exec_call ns c d)"

section \<open>Saving and finalizing a shape game attempt (games/views.py)\<close>

text \<open>
  The JSON body of the request: each of the three keys may be absent. The response carries
  \<open>success\<close> with the attempt's id, score and accuracy, or the error that the handler
  caught. The key of a new attempt is the UUID that \<^verbatim>\<open>uuid.uuid4\<close> draws; it is an
  argument, like the clock.
\<close>

record save_request =
  req_current_state :: "placements option"
  req_score :: "int option"
  req_status :: "string option"

datatype response = Success nat int rat | Failure error

text \<open>
  \<^verbatim>\<open>ShapeGameAttempt.objects.get_or_create(user=..., shape_game=...,
  status=GameStatus.IN_PROGRESS, defaults={'current_state': {}})\<close>.
\<close>

definition get_or_create_attempt ::
  "nat \<Rightarrow> shape_game \<Rightarrow> nat \<Rightarrow> int \<Rightarrow> db \<Rightarrow> (error + shape_game_attempt \<times> bool) \<times> db" where
  "get_or_create_attempt usr game uuid now d =
     (case objects_get (filter (\<lambda>a. att_user a = usr \<and> att_shape_game a = sg_id game
                                     \<and> att_status a = IN_PROGRESS) (shape_attempts d)) of
        Inr a \<Rightarrow> (Inr (a, False), d)
      | Inl e \<Rightarrow>
          if e = DoesNotExist then
            (let a = \<lparr>att_id = uuid, att_user = usr, att_shape_game = sg_id game,
                      current_state = [], start_time = now, end_time = None,
                      att_status = IN_PROGRESS, att_score = 0, att_accuracy = 0,
                      correct_placements = 0, incorrect_placements = 0,
                      time_taken_seconds = 0\<rparr>
             in (Inr (a, True), d\<lparr>shape_attempts := shape_attempts d @ [a]\<rparr>))
          else (Inl e, d))"

text \<open>\<^verbatim>\<open>get_object_or_404(ShapeGame, id=game_id, is_active=True)\<close>.\<close>

definition get_game_or_404 :: "nat \<Rightarrow> db \<Rightarrow> error + shape_game" where
  "get_game_or_404 game_id d =
     (case objects_get (filter (\<lambda>g. sg_id g = game_id \<and> sg_is_active g) (shape_games d)) of
        Inr game \<Rightarrow> Inr game
      | Inl e \<Rightarrow> if e = DoesNotExist then Inl Http404 else Inl e)"

definition api_save_shape_game_state ::
  "nat \<Rightarrow> nat \<Rightarrow> save_request \<Rightarrow> nat \<Rightarrow> int \<Rightarrow> db \<Rightarrow> response \<times> db" where
  "api_save_shape_game_state usr game_id data uuid now d =
     (case get_game_or_404 game_id d of
        Inl e \<Rightarrow> (Failure e, d)
      | Inr game \<Rightarrow>
          (case get_or_create_attempt usr game uuid now d of
             (Inl e, d1) \<Rightarrow> (Failure e, d1)
           | (Inr (attempt, created), d1) \<Rightarrow>
               (let placements = (case req_current_state data of None \<Rightarrow> [] | Some st \<Rightarrow> st);
                    attempt1 = attempt
                      \<lparr>current_state := placements,
                       att_score := (case req_score data of None \<Rightarrow> 0 | Some sc \<Rightarrow> sc),
                       correct_placements := int (length placements),
                       incorrect_placements := 0\<rparr>;
                    attempt2 =
                      (if req_status data = Some ''completed'' then
                         (let validation_result = validate_shape_placement game placements
                          in attempt1
                               \<lparr>att_status := COMPLETED,
                                end_time := Some now,
                                time_taken_seconds := now - start_time attempt1,
                                att_accuracy := accuracy validation_result,
                                att_score := final_score validation_result,
                                correct_placements := correct_count validation_result,
                                incorrect_placements := incorrect_count validation_result\<rparr>)
                       else attempt1)
                in (Success (att_id attempt2) (att_score attempt2) (att_accuracy attempt2),
                    d1\<lparr>shape_attempts := save_row att_id attempt2 (shape_attempts d1)\<rparr>))))"

section \<open>The achievement evaluator (games/views.py, check\_user\_achievements)\<close>

text \<open>
  \<^verbatim>\<open>UserAchievement.objects.create(user=..., achievement=...)\<close>: the table is declared
  \<^verbatim>\<open>unique_together = ['user', 'achievement']\<close>, so the database refuses a second row
  for a pair with \<open>IntegrityError\<close>.
\<close>

definition create_user_achievement :: "nat \<Rightarrow> nat \<Rightarrow> db \<Rightarrow> (error + user_achievement) \<times> db" where
  "create_user_achievement usr ach d =
     (if filter (\<lambda>ua. ua_user ua = usr \<and> ua_achievement ua = ach) (user_achievements d) \<noteq> []
      then (Inl IntegrityError, d)
      else
        (let ua = \<lparr>ua_id = next_pk (map ua_id (user_achievements d)), ua_user = usr,
                   ua_achievement = ach\<rparr>
         in (Inr ua, d\<lparr>user_achievements := user_achievements d @ [ua]\<rparr>)))"

text \<open>The loop that awards: one row and one addition to the instance's score per achievement.\<close>

fun award_achievements :: "achievement list \<Rightarrow> user \<Rightarrow> db \<Rightarrow> (error + user) \<times> db" where
  "award_achievements [] usr d = (Inr usr, d)"
| "award_achievements (a # rest) usr d =
     (case create_user_achievement (user_id usr) (ach_id a) d of
        (Inl e, d') \<Rightarrow> (Inl e, d')
      | (Inr ua, d') \<Rightarrow>
          award_achievements rest
            (usr\<lparr>user_total_score := user_total_score usr + points_reward a\<rparr>) d')"

definition not_yet_earned :: "nat \<Rightarrow> db \<Rightarrow> achievement \<Rightarrow> bool" where
  "not_yet_earned usr d a =
     (filter (\<lambda>ua. ua_user ua = usr \<and> ua_achievement ua = ach_id a) (user_achievements d) = [])"

definition achievements_to_award :: "user \<Rightarrow> db \<Rightarrow> achievement list" where
  "achievements_to_award usr d =
     (let completed_levels =
            int (length (filter (\<lambda>r. lp_user r = user_id usr \<and> is_completed r)
                           (level_progress d)));
          total_puzzles =
            int (length (filter (\<lambda>a. att_user a = user_id usr \<and> att_status a = COMPLETED)
                           (shape_attempts d)));
          total_sc = user_total_score usr;
          level_achievements =
            filter (\<lambda>a. requirement_type a = ''levels_completed''
                         \<and> requirement_value a \<le> completed_levels \<and> ach_is_active a)
              (achievements d);
          puzzle_achievements =
            filter (\<lambda>a. requirement_type a = ''puzzles_solved''
                         \<and> requirement_value a \<le> total_puzzles \<and> ach_is_active a)
              (achievements d);
          score_achievements =
            filter (\<lambda>a. requirement_type a = ''score_reached''
                         \<and> requirement_value a \<le> total_sc \<and> ach_is_active a)
              (achievements d)
      in filter (not_yet_earned (user_id usr) d) level_achievements
         @ filter (not_yet_earned (user_id usr) d) puzzle_achievements
         @ filter (not_yet_earned (user_id usr) d) score_achievements)"

definition check_user_achievements :: "user \<Rightarrow> db \<Rightarrow> (error + achievement list) \<times> db" where
  "check_user_achievements usr d =
     (let to_award = achievements_to_award usr d
      in case award_achievements to_award usr d of
           (Inl e, d') \<Rightarrow> (Inl e, d')
         | (Inr usr', d') \<Rightarrow>
             if to_award \<noteq> [] then (Inr to_award, d'\<lparr>users := save_row user_id usr' (users d')\<rparr>)
             else (Inr to_award, d'))"

section \<open>Notions used to state the properties\<close>

subsection \<open>Placements\<close>

text \<open>
  A placement entry is an object, as the client sends it; it is wrong when the shape it names
  is not the one the solution has for its coordinate.
\<close>

definition is_object :: "placement \<Rightarrow> bool" where
  "is_object pl = (case pl of PObject d \<Rightarrow> True | PValue v \<Rightarrow> False)"

definition placement_wrong :: "pydict \<Rightarrow> string \<times> placement \<Rightarrow> bool" where
  "placement_wrong solution p =
     (placement_get (snd p) ''shapeId'' \<noteq> Inr (py_get solution (fst p)))"

subsection \<open>Constraints of the database schema\<close>

text \<open>
  What the schema declares for the level tables: primary keys, \<^verbatim>\<open>unique=True\<close> on
  \<open>level_number\<close> and \<^verbatim>\<open>unique_together = ['user', 'level']\<close> on the progress rows.
\<close>

definition wf_db :: "db \<Rightarrow> bool" where
  "wf_db d \<longleftrightarrow>
     distinct (map level_id (levels d)) \<and>
     distinct (map level_number (levels d)) \<and>
     distinct (map lp_id (level_progress d)) \<and>
     distinct (map (\<lambda>r. (lp_user r, lp_level r)) (level_progress d))"

text \<open>The row that \<open>get_or_create_progress\<close> inserts, and the attempt that
  \<open>get_or_create_attempt\<close> inserts.\<close>

definition new_progress_row :: "nat \<Rightarrow> nat \<Rightarrow> db \<Rightarrow> user_level_progress" where
  "new_progress_row usr lvl d =
     \<lparr>lp_id = next_pk (map lp_id (level_progress d)), lp_user = usr, lp_level = lvl,
      puzzles_completed = 0, is_completed = False, completed_at = None, total_score = 0\<rparr>"

definition new_attempt :: "nat \<Rightarrow> shape_game \<Rightarrow> nat \<Rightarrow> int \<Rightarrow> shape_game_attempt" where
  "new_attempt usr game uuid now =
     \<lparr>att_id = uuid, att_user = usr, att_shape_game = sg_id game,
      current_state = [], start_time = now, end_time = None,
      att_status = IN_PROGRESS, att_score = 0, att_accuracy = 0,
      correct_placements = 0, incorrect_placements = 0, time_taken_seconds = 0\<rparr>"

subsection \<open>Progress between two states of the database\<close>

text \<open>
  A progress row meets the requirement of its level when it counts at least
  \<open>puzzles_required\<close> completed puzzles. A row advances to a later version of itself when
  the count has not decreased, a completed row is still completed, and a row that became
  completed meets the requirement. Progress is preserved from \<open>d\<close> to \<open>d'\<close> when the
  levels are the same, every row of \<open>d\<close> has advanced to a row of \<open>d'\<close>, and every completed
  row that is new in \<open>d'\<close> meets the requirement.
\<close>

definition meets_requirement :: "db \<Rightarrow> user_level_progress \<Rightarrow> bool" where
  "meets_requirement d r =
     (case level_of d r of
        Inr lvl \<Rightarrow> puzzles_required lvl \<le> puzzles_completed r
      | Inl e \<Rightarrow> False)"

definition row_advances :: "db \<Rightarrow> user_level_progress \<Rightarrow> user_level_progress \<Rightarrow> bool" where
  "row_advances d r r' \<longleftrightarrow>
     lp_id r' = lp_id r \<and> lp_user r' = lp_user r \<and> lp_level r' = lp_level r \<and>
     puzzles_completed r \<le> puzzles_completed r' \<and>
     (is_completed r \<longrightarrow> is_completed r') \<and>
     (\<not> is_completed r \<and> is_completed r' \<longrightarrow> meets_requirement d r')"

definition progress_preserved :: "db \<Rightarrow> db \<Rightarrow> bool" where
  "progress_preserved d d' \<longleftrightarrow>
     levels d' = levels d \<and>
     distinct (map lp_id (level_progress d')) \<and>
     (\<forall>r \<in> set (level_progress d). \<exists>r' \<in> set (level_progress d'). row_advances d r r') \<and>
     (\<forall>r' \<in> set (level_progress d').
        lp_id r' \<notin> lp_id ` set (level_progress d) \<longrightarrow> is_completed r' \<longrightarrow>
        meets_requirement d r')"

subsection \<open>The attempt that the save handler writes\<close>

definition finalized ::
  "shape_game \<Rightarrow> save_request \<Rightarrow> int \<Rightarrow> shape_game_attempt \<Rightarrow> shape_game_attempt" where
  "finalized game data now attempt =
     (let placements = (case req_current_state data of None \<Rightarrow> [] | Some st \<Rightarrow> st);
          attempt1 = attempt
            \<lparr>current_state := placements,
             att_score := (case req_score data of None \<Rightarrow> 0 | Some sc \<Rightarrow> sc),
             correct_placements := int (length placements),
             incorrect_placements := 0\<rparr>
      in if req_status data = Some ''completed'' then
           (let validation_result = validate_shape_placement game placements
            in attempt1
                 \<lparr>att_status := COMPLETED,
                  end_time := Some now,
                  time_taken_seconds := now - start_time attempt1,
                  att_accuracy := accuracy validation_result,
                  att_score := final_score validation_result,
                  correct_placements := correct_count validation_result,
                  incorrect_placements := incorrect_count validation_result\<rparr>)
         else attempt1)"

subsection \<open>Achievements\<close>

text \<open>
  The specification's rule for granting: an active achievement qualifies when its
  \<open>requirement_value\<close> is at most the metric of its \<open>requirement_type\<close>, for the three
  metrics the evaluator reads: the user's completed levels, the user's completed attempts and
  the total score of the user instance. \<open>granted_pairs\<close> lists the (user, achievement)
  pair of every UserAchievement row.
\<close>

definition qualifies :: "user \<Rightarrow> db \<Rightarrow> achievement \<Rightarrow> bool" where
  "qualifies usr d a \<longleftrightarrow>
     ach_is_active a \<and>
     (requirement_type a = ''levels_completed'' \<and>
        requirement_value a \<le> int (length (filter (\<lambda>r. lp_user r = user_id usr \<and> is_completed r)
                                              (level_progress d)))
      \<or> requirement_type a = ''puzzles_solved'' \<and>
        requirement_value a \<le> int (length (filter (\<lambda>a. att_user a = user_id usr
                                                      \<and> att_status a = COMPLETED)
                                              (shape_attempts d)))
      \<or> requirement_type a = ''score_reached'' \<and> requirement_value a \<le> user_total_score usr)"

definition granted_pairs :: "db \<Rightarrow> (nat \<times> nat) list" where
  "granted_pairs d = map (\<lambda>ua. (ua_user ua, ua_achievement ua)) (user_achievements d)"

section \<open>Example data\<close>

text \<open>
  The 3 by 3 puzzle of the specification's scenarios A and B: one blank cell at row 1,
  column 1, whose solution is shape 3. The second game lists a fixed cell in its solution
  as well, which the form that validates solution data accepts.
\<close>

definition scenario_grid :: grid_template where
  "scenario_grid =
     \<lparr>grid_data = [[PInt 1, PInt 2, PInt 3],
                   [PInt 2, PStr ''?'', PInt 1],
                   [PInt 3, PInt 1, PInt 2]]\<rparr>"

definition scenario_game :: shape_game where
  "scenario_game =
     \<lparr>sg_id = 1, sg_is_active = True, sg_grid_template = scenario_grid,
      solution_data = [(''1,1'', PInt 3)], points_per_correct = 10, penalty_per_wrong = 5\<rparr>"

definition full_solution_game :: shape_game where
  "full_solution_game =
     scenario_game\<lparr>solution_data := [(''1,1'', PInt 3), (''0,0'', PInt 1)]\<rparr>"

text \<open>Levels, progress rows and databases: user 7 on levels that require two puzzles.\<close>

definition empty_db :: db where
  "empty_db = \<lparr>levels = [], level_progress = [], level_puzzles = [], puzzle_attempts = [],
     shape_games = [], shape_attempts = [], achievements = [], user_achievements = [],
     users = []\<rparr>"

definition level1 :: puzzle_level where
  "level1 = \<lparr>level_id = 1, level_number = 1, puzzles_required = 2, level_is_active = True\<rparr>"

definition level2 :: puzzle_level where
  "level2 = \<lparr>level_id = 2, level_number = 2, puzzles_required = 2, level_is_active = True\<rparr>"

definition closed_level2 :: puzzle_level where
  "closed_level2 = level2\<lparr>level_is_active := False\<rparr>"

definition level3 :: puzzle_level where
  "level3 = \<lparr>level_id = 3, level_number = 3, puzzles_required = 2, level_is_active = True\<rparr>"

text \<open>Level 3 alone: level 2 was deleted, or never created.\<close>

definition gap_db :: db where
  "gap_db = empty_db\<lparr>levels := [level3]\<rparr>"

definition progress_done :: user_level_progress where
  "progress_done = \<lparr>lp_id = 1, lp_user = 7, lp_level = 1, puzzles_completed = 2,
     is_completed = True, completed_at = Some 50, total_score = 80\<rparr>"

definition two_level_db :: db where
  "two_level_db = empty_db\<lparr>levels := [level1, level2], level_progress := [progress_done]\<rparr>"

definition progress_ready :: user_level_progress where
  "progress_ready = \<lparr>lp_id = 1, lp_user = 7, lp_level = 1, puzzles_completed = 2,
     is_completed = False, completed_at = None, total_score = 80\<rparr>"

definition ready_db :: db where
  "ready_db = empty_db\<lparr>levels := [level1, level2], level_progress := [progress_ready]\<rparr>"

text \<open>User 7 already has the row of level 2.\<close>

definition next_started :: user_level_progress where
  "next_started = \<lparr>lp_id = 2, lp_user = 7, lp_level = 2, puzzles_completed = 0,
     is_completed = False, completed_at = None, total_score = 0\<rparr>"

definition started_db :: db where
  "started_db = ready_db\<lparr>level_progress := [progress_ready, next_started]\<rparr>"

definition closed_next_db :: db where
  "closed_next_db =
     empty_db\<lparr>levels := [level1, closed_level2], level_progress := [progress_ready]\<rparr>"

text \<open>
  Scenario C of the specification: level 1 requires two puzzles, the user has an attempt
  at each. \<open>half_way_db\<close> is the state after the first attempt was completed with score 50.
\<close>

definition first_attempt :: user_puzzle_attempt where
  "first_attempt = \<lparr>upa_id = 1, upa_user = 7, upa_level_puzzle = 1,
     upa_shape_game_attempt = 101, upa_is_completed = False, score_earned = 0,
     upa_completed_at = None\<rparr>"

definition second_attempt :: user_puzzle_attempt where
  "second_attempt = \<lparr>upa_id = 2, upa_user = 7, upa_level_puzzle = 2,
     upa_shape_game_attempt = 102, upa_is_completed = False, score_earned = 0,
     upa_completed_at = None\<rparr>"

definition scenario_db :: db where
  "scenario_db = empty_db
     \<lparr>levels := [level1, level2],
      level_puzzles := [\<lparr>lpz_id = 1, lpz_level = 1\<rparr>, \<lparr>lpz_id = 2, lpz_level = 1\<rparr>],
      puzzle_attempts := [first_attempt, second_attempt],
      users := [\<lparr>user_id = 7, user_total_score = 0\<rparr>]\<rparr>"

definition half_way_db :: db where
  "half_way_db = scenario_db
     \<lparr>level_progress :=
        [\<lparr>lp_id = 1, lp_user = 7, lp_level = 1, puzzles_completed = 1,
          is_completed = False, completed_at = None, total_score = 50\<rparr>],
      puzzle_attempts :=
        [first_attempt\<lparr>upa_is_completed := True, score_earned := 50,
                         upa_completed_at := Some 100\<rparr>, second_attempt],
      users := [\<lparr>user_id = 7, user_total_score = 50\<rparr>]\<rparr>"

text \<open>The names that games/level\_models.py itself reads from \<^verbatim>\<open>django.db.models\<close>.\<close>

definition level_models_names :: namespace where
  "level_models_names =
     [''Model'', ''PositiveIntegerField'', ''CharField'', ''TextField'', ''BooleanField'',
      ''DateTimeField'', ''ForeignKey'', ''OneToOneField'', ''SET_NULL'', ''CASCADE'']"

text \<open>Requests that finalize the scenario game, and the database after the first of them.\<close>

definition game_db :: db where
  "game_db = empty_db\<lparr>shape_games := [scenario_game]\<rparr>"

definition finalize_right :: save_request where
  "finalize_right =
     \<lparr>req_current_state = Some [(''1,1'', PObject [(''shapeId'', PInt 3)])],
      req_score = None, req_status = Some ''completed''\<rparr>"

definition finalize_wrong :: save_request where
  "finalize_wrong =
     \<lparr>req_current_state = Some [(''1,1'', PObject [(''shapeId'', PInt 2)])],
      req_score = None, req_status = Some ''completed''\<rparr>"

definition finished_attempt :: shape_game_attempt where
  "finished_attempt =
     \<lparr>att_id = 101, att_user = 7, att_shape_game = 1,
      current_state = [(''1,1'', PObject [(''shapeId'', PInt 3)])],
      start_time = 1000, end_time = Some 1000, att_status = COMPLETED, att_score = 10,
      att_accuracy = 100, correct_placements = 1, incorrect_placements = 0,
      time_taken_seconds = 0\<rparr>"

definition finished_db :: db where
  "finished_db = game_db\<lparr>shape_attempts := [finished_attempt]\<rparr>"

text \<open>A user with one completed level and 120 points, and three achievements.\<close>

definition player :: user where
  "player = \<lparr>user_id = 7, user_total_score = 120\<rparr>"

definition first_level_badge :: achievement where
  "first_level_badge = \<lparr>ach_id = 1, points_reward = 50, requirement_type = ''levels_completed'',
     requirement_value = 1, ach_is_active = True\<rparr>"

definition century_badge :: achievement where
  "century_badge = \<lparr>ach_id = 2, points_reward = 10, requirement_type = ''score_reached'',
     requirement_value = 100, ach_is_active = True\<rparr>"

definition solver_badge :: achievement where
  "solver_badge = \<lparr>ach_id = 3, points_reward = 5, requirement_type = ''puzzles_solved'',
     requirement_value = 1, ach_is_active = True\<rparr>"

definition achievement_db :: db where
  "achievement_db = two_level_db
     \<lparr>achievements := [first_level_badge, century_badge, solver_badge], users := [player]\<rparr>"

section \<open>Properties of the placement validator\<close>

subsection \<open>The loop over the placements\<close>

text \<open>
  When every entry is an object the loop ends normally, having added the number of correct
  entries to one counter and the number of wrong entries to the other. When some entry is
  not an object the loop raises \<open>AttributeError\<close>.
\<close>

lemma check_placements_counts:
  "list_all (\<lambda>p. is_object (snd p)) ps \<Longrightarrow>
   \<exists>details'. check_placements sol ps (cc, ic, details) =
     Inr (cc + int (length (filter (\<lambda>p. \<not> placement_wrong sol p) ps)),
          ic + int (length (filter (placement_wrong sol) ps)), details')"
proof (induction ps arbitrary: cc ic details)
  case Nil
  then show ?case by simp
next
  case (Cons p ps)
  obtain pos pl where p: "p = (pos, pl)" by (cases p)
  from Cons.prems p obtain d where pl: "pl = PObject d"
    by (cases pl) (auto simp: is_object_def)
  from Cons.prems have rest: "list_all (\<lambda>p. is_object (snd p)) ps" by simp
  show ?case
  proof (cases "py_get sol pos = py_get d ''shapeId''")
    case True
    with Cons.IH [OF rest, of "cc + 1" ic] p pl show ?thesis
      by (simp add: placement_wrong_def Let_def add.assoc)
  next
    case False
    with Cons.IH [OF rest, of cc "ic + 1"] p pl show ?thesis
      by (simp add: placement_wrong_def Let_def add.assoc) 
  qed
qed

lemma check_placements_fails:
  "\<not> list_all (\<lambda>p. is_object (snd p)) ps \<Longrightarrow> check_placements sol ps acc = Inl AttributeError"
proof (induction ps arbitrary: acc)
  case Nil
  then show ?case by simp
next
  case (Cons p ps)
  obtain pos pl where p: "p = (pos, pl)" by (cases p)
  obtain cc ic details where acc: "acc = (cc, ic, details)" by (cases acc)
  show ?case
  proof (cases pl)
    case (PObject d)
    with Cons.prems p have "\<not> list_all (\<lambda>p. is_object (snd p)) ps" by (simp add: is_object_def)
    then show ?thesis using Cons.IH p acc PObject by (simp add: Let_def)
  next
    case (PValue v)
    then show ?thesis using p acc by simp
  qed
qed

subsection \<open>Rounding\<close>

lemma py_round2_nonneg: "0 \<le> x \<Longrightarrow> 0 \<le> py_round2 x"
  by (auto simp: py_round2_def Let_def)

lemma py_round2_le_100: assumes "x \<le> 100" shows "py_round2 x \<le> 100"
proof -
  define y where "y = x * 100"
  define f where "f = \<lfloor>y\<rfloor>"
  have y: "y \<le> 10000" using assms by (simp add: y_def)
  then have f: "f \<le> 10000" unfolding f_def by (simp add: floor_le_iff) 
  show ?thesis
  proof (cases "f = 10000")
    case True
    have "of_int f \<le> y" unfolding f_def by (rule of_int_floor_le)
    with True y have "y - of_int f = 0" by simp
    then show ?thesis using True unfolding py_round2_def Let_def y_def [symmetric] f_def [symmetric]
      by simp
  next
    case False
    with f have "f + 1 \<le> 10000" by simp
    then have "(of_int (f + 1) :: rat) \<le> 10000" "(of_int f :: rat) \<le> 10000" using f by linarith+ 
    then show ?thesis unfolding py_round2_def Let_def y_def [symmetric] f_def [symmetric]
      by auto
  qed
qed

subsection \<open>The result of the validator\<close>

lemma validate_body_objects:
  assumes "list_all (\<lambda>p. is_object (snd p)) ps"
  shows "\<exists>r. validate_body game ps = Inr r \<and>
           correct_count r = int (length (filter (\<lambda>p. \<not> placement_wrong (solution_data game) p) ps)) \<and>
           incorrect_count r = int (length (filter (placement_wrong (solution_data game)) ps)) \<and>
           final_score r = max 0 (correct_count r * points_per_correct game
                                  - incorrect_count r * penalty_per_wrong game) \<and>
           total_questions r = count_questions (grid_data (sg_grid_template game)) 0 \<and>
           accuracy r = py_round2 (if 0 < total_questions r
              then of_int (correct_count r) / of_int (total_questions r) * 100 else 0) \<and>
           vr_error r = None"
proof -
  from check_placements_counts [OF assms, of "solution_data game" 0 0 "[]"]
  obtain details where
    "check_placements (solution_data game) ps (0, 0, []) =
       Inr (0 + int (length (filter (\<lambda>p. \<not> placement_wrong (solution_data game) p) ps)),
            0 + int (length (filter (placement_wrong (solution_data game)) ps)), details)"
    by blast
  then show ?thesis
    by (simp add: validate_body_def Let_def)
qed

lemma validate_body_fails:
  assumes "\<not> list_all (\<lambda>p. is_object (snd p)) ps"
  shows "validate_body game ps = Inl AttributeError"
  using check_placements_fails [OF assms] by (simp add: validate_body_def Let_def)

lemma validate_score_fields:
  "final_score (validate_shape_placement game ps) =
     max 0 (correct_count (validate_shape_placement game ps) * points_per_correct game
            - incorrect_count (validate_shape_placement game ps) * penalty_per_wrong game)"
proof (cases "list_all (\<lambda>p. is_object (snd p)) ps")
  case True
  from validate_body_objects [OF True, of game] show ?thesis
    by (auto simp: validate_shape_placement_def)
next
  case False
  from validate_body_fails [OF False, of game] show ?thesis
    by (simp add: validate_shape_placement_def failed_result_def)
qed

lemma accuracy_formula:
  "accuracy (validate_shape_placement game ps) =
     py_round2 (if 0 < total_questions (validate_shape_placement game ps)
                then of_int (correct_count (validate_shape_placement game ps))
                     / of_int (total_questions (validate_shape_placement game ps)) * 100
                else 0)"
proof (cases "list_all (\<lambda>p. is_object (snd p)) ps")
  case True
  from validate_body_objects [OF True, of game] show ?thesis
    by (auto simp: validate_shape_placement_def)
next
  case False
  from validate_body_fails [OF False, of game] show ?thesis
    by (simp add: validate_shape_placement_def failed_result_def py_round2_def)
qed

lemma accuracy_range:
  assumes "correct_count (validate_shape_placement game ps)
             \<le> total_questions (validate_shape_placement game ps)"
  shows "0 \<le> accuracy (validate_shape_placement game ps)
         \<and> accuracy (validate_shape_placement game ps) \<le> 100"
proof -
  let ?r = "validate_shape_placement game ps"
  have cc: "0 \<le> correct_count ?r"
  proof (cases "list_all (\<lambda>p. is_object (snd p)) ps")
    case True
    from validate_body_objects [OF True, of game] show ?thesis
      by (auto simp: validate_shape_placement_def)
  next
    case False
    from validate_body_fails [OF False, of game] show ?thesis
      by (simp add: validate_shape_placement_def failed_result_def)
  qed
  let ?x = "if 0 < total_questions ?r
            then (of_int (correct_count ?r) :: rat) / of_int (total_questions ?r) * 100 else 0"
  have "0 \<le> ?x" using cc by simp
  moreover have "?x \<le> 100" using assms cc by (simp add: divide_le_eq)
  ultimately show ?thesis
    unfolding accuracy_formula [of game ps]
    using py_round2_nonneg [of ?x] py_round2_le_100 [of ?x] by blast
qed

lemma scenario_A:
  "validate_shape_placement scenario_game [(''1,1'', PObject [(''shapeId'', PInt 3)])] =
     \<lparr>accuracy = 100, final_score = 10, correct_count = 1, incorrect_count = 0,
      total_questions = 1, is_complete = True, is_perfect = True,
      validation_details =
        Some [(''1,1'', \<lparr>correct = True, expected = PInt 3, placed = PInt 3\<rparr>)],
      vr_error = None\<rparr>"
  by code_simp

lemma scenario_B:
  "validate_shape_placement scenario_game [(''1,1'', PObject [(''shapeId'', PInt 2)])] =
     \<lparr>accuracy = 0, final_score = 0, correct_count = 0, incorrect_count = 1,
      total_questions = 1, is_complete = True, is_perfect = False,
      validation_details =
        Some [(''1,1'', \<lparr>correct = False, expected = PInt 3, placed = PInt 2\<rparr>)],
      vr_error = None\<rparr>"
  by code_simp

text \<open>
  Claim C4. The score that the validator returns is
  \<open>max 0 (correct_count * points_per_correct - incorrect_count * penalty_per_wrong)\<close> for every
  game and every placement mapping, and so is never negative. The counts are those of the
  returned result; when every entry is an object they are the number of entries that name
  the expected shape and the number of entries that do not.
\<close>

theorem validator_score_floor:
  "final_score (validate_shape_placement game ps) =
     max 0 (correct_count (validate_shape_placement game ps) * points_per_correct game
            - incorrect_count (validate_shape_placement game ps) * penalty_per_wrong game)
   \<and> 0 \<le> final_score (validate_shape_placement game ps)
   \<and> (list_all (\<lambda>p. is_object (snd p)) ps \<longrightarrow>
        final_score (validate_shape_placement game ps) =
          max 0 (int (length (filter (\<lambda>p. \<not> placement_wrong (solution_data game) p) ps))
                   * points_per_correct game
                 - int (length (filter (placement_wrong (solution_data game)) ps))
                   * penalty_per_wrong game))"
proof (intro conjI impI)
  show f: "final_score (validate_shape_placement game ps) =
     max 0 (correct_count (validate_shape_placement game ps) * points_per_correct game
            - incorrect_count (validate_shape_placement game ps) * penalty_per_wrong game)"
    by (rule validate_score_fields)
  show "0 \<le> final_score (validate_shape_placement game ps)"
    by (subst f) simp
next
  assume "list_all (\<lambda>p. is_object (snd p)) ps"
  from validate_body_objects [OF this, of game]
  show "final_score (validate_shape_placement game ps) =
          max 0 (int (length (filter (\<lambda>p. \<not> placement_wrong (solution_data game) p) ps))
                   * points_per_correct game
                 - int (length (filter (placement_wrong (solution_data game)) ps))
                   * penalty_per_wrong game)"
    by (auto simp: validate_shape_placement_def)
qed

text \<open>
  Witness for C4: scenario B, one wrong placement, where the difference is negative and the
  score is 0.
\<close>

theorem validator_score_floor_witness:
  "list_all (\<lambda>p. is_object (snd p)) [(''1,1'', PObject [(''shapeId'', PInt 2)])]
   \<and> final_score (validate_shape_placement scenario_game
        [(''1,1'', PObject [(''shapeId'', PInt 2)])]) = 0"
  using validator_score_floor [of scenario_game "[(''1,1'', PObject [(''shapeId'', PInt 2)])]"]
  by (simp add: is_object_def placement_wrong_def scenario_game_def py_get_def)

text \<open>
  Claim C5. The accuracy is \<open>correct_count / total_questions * 100\<close> rounded to two
  places, and 0 without question cells (\<open>accuracy_formula\<close>); it lies between 0 and 100 when
  \<open>correct_count \<le> total_questions\<close> (\<open>accuracy_range\<close>). Nothing bounds the number of
  correct placements by the number of question cells, and the bound of 100 fails: with one
  question cell and two placements counted correct the validator returns 200. The first
  input places the expected shapes on two coordinates that the solution lists; the second
  adds an entry without a shape on a coordinate that the solution does not list.
\<close>

theorem accuracy_above_100:
  "accuracy (validate_shape_placement full_solution_game
      [(''1,1'', PObject [(''shapeId'', PInt 3)]), (''0,0'', PObject [(''shapeId'', PInt 1)])]) = 200
   \<and> accuracy (validate_shape_placement scenario_game
      [(''1,1'', PObject [(''shapeId'', PInt 3)]), (''0,0'', PObject [])]) = 200"
  by code_simp

text \<open>
  Claim C6, as stated, fails at two inputs. An entry without \<open>shapeId\<close> on a coordinate that
  the solution does not list is counted correct, since both sides of the comparison are
  \<open>None\<close>. An entry that is not an object makes the validator return its default result,
  whose two counts are 0 whatever the number of placed coordinates.
\<close>

theorem unknown_coordinate_counterexample:
  "map_of (solution_data scenario_game) ''0,0'' = None
   \<and> correct_count (validate_shape_placement scenario_game [(''0,0'', PObject [])]) = 1
   \<and> incorrect_count (validate_shape_placement scenario_game [(''0,0'', PObject [])]) = 0
   \<and> correct_count (validate_shape_placement scenario_game [(''1,1'', PValue (PInt 3))])
       + incorrect_count (validate_shape_placement scenario_game [(''1,1'', PValue (PInt 3))])
       \<noteq> int (length [(''1,1'', PValue (PInt 3))])"
  by code_simp

text \<open>
  Claim C6, amended. When every entry of the placement mapping is an object,
  \<open>correct_count + incorrect_count\<close> is the number of placed coordinates and
  \<open>incorrect_count\<close> is the number of wrong entries; every entry on a coordinate that is not
  a key of the solution and that names a shape (its \<open>shapeId\<close> is not \<open>None\<close>) is a wrong
  entry, so it is counted in \<open>incorrect_count\<close>.
\<close>

theorem placements_all_counted:
  assumes "list_all (\<lambda>p. is_object (snd p)) ps"
  shows "correct_count (validate_shape_placement game ps)
           + incorrect_count (validate_shape_placement game ps) = int (length ps)
         \<and> incorrect_count (validate_shape_placement game ps) =
             int (length (filter (placement_wrong (solution_data game)) ps))
         \<and> (\<forall>p \<in> set ps. map_of (solution_data game) (fst p) = None
               \<and> placement_get (snd p) ''shapeId'' \<noteq> Inr PNone
               \<longrightarrow> placement_wrong (solution_data game) p)"
proof -
  from validate_body_objects [OF assms, of game] obtain r where
    r: "validate_body game ps = Inr r"
      "correct_count r = int (length (filter (\<lambda>p. \<not> placement_wrong (solution_data game) p) ps))"
      "incorrect_count r = int (length (filter (placement_wrong (solution_data game)) ps))"
    by blast
  have v: "validate_shape_placement game ps = r"
    using r(1) by (simp add: validate_shape_placement_def)
  have "length (filter (\<lambda>p. \<not> placement_wrong (solution_data game) p) ps)
        + length (filter (placement_wrong (solution_data game)) ps) = length ps"
    using sum_length_filter_compl [of "placement_wrong (solution_data game)" ps] by simp
  then have total: "correct_count r + incorrect_count r = int (length ps)"
    using r(2,3) by simp
  have unknown: "\<forall>p \<in> set ps. map_of (solution_data game) (fst p) = None
               \<and> placement_get (snd p) ''shapeId'' \<noteq> Inr PNone
               \<longrightarrow> placement_wrong (solution_data game) p"
    by (simp add: placement_wrong_def py_get_def)
  from total r(3) unknown show ?thesis unfolding v by blast
qed

text \<open>
  Witness for C6: shape 1 placed on the coordinate 0,0, which the solution of the scenario
  game does not list.
\<close>

theorem placements_all_counted_witness:
  "list_all (\<lambda>p. is_object (snd p)) [(''0,0'', PObject [(''shapeId'', PInt 1)])]
   \<and> map_of (solution_data scenario_game) ''0,0'' = None
   \<and> placement_get (PObject [(''shapeId'', PInt 1)]) ''shapeId'' \<noteq> Inr PNone
   \<and> placement_wrong (solution_data scenario_game) (''0,0'', PObject [(''shapeId'', PInt 1)])
   \<and> incorrect_count (validate_shape_placement scenario_game
        [(''0,0'', PObject [(''shapeId'', PInt 1)])]) = 1
   \<and> correct_count (validate_shape_placement scenario_game
        [(''0,0'', PObject [(''shapeId'', PInt 1)])]) = 0"
  using placements_all_counted [of "[(''0,0'', PObject [(''shapeId'', PInt 1)])]" scenario_game]
  by (simp add: is_object_def placement_wrong_def scenario_game_def py_get_def)

text \<open>
  Claim C9, as stated, fails: on a placement entry that is a bare value the lookup of
  \<open>shapeId\<close> raises inside the validator, and the validator returns the default result
  with zero score and accuracy.
\<close>

theorem swallowed_failure_counterexample:
  "validate_body scenario_game [(''1,1'', PValue (PInt 3))] = Inl AttributeError
   \<and> validate_shape_placement scenario_game [(''1,1'', PValue (PInt 3))] =
       \<lparr>accuracy = 0, final_score = 0, correct_count = 0, incorrect_count = 0,
        total_questions = 0, is_complete = False, is_perfect = False,
        validation_details = None, vr_error = Some AttributeError\<rparr>"
  by code_simp

text \<open>
  Claim C9, amended. The validator never raises: whenever a step of its body fails, the
  exception is caught and the validator returns the default result, with accuracy 0, score
  0, both counts 0, not complete, not perfect, and the error recorded in the result. On the
  inputs of this model (a grid of rows, a solution mapping, a placement mapping) a step
  fails exactly when some placement entry is not an object; when every entry is an object
  the result records no error.
\<close>

theorem validator_returns_default_on_failure:
  "(validate_body game ps = Inl AttributeError \<longleftrightarrow> \<not> list_all (\<lambda>p. is_object (snd p)) ps)
   \<and> (\<forall>e. validate_body game ps = Inl e \<longrightarrow>
         validate_shape_placement game ps =
           \<lparr>accuracy = 0, final_score = 0, correct_count = 0, incorrect_count = 0,
            total_questions = 0, is_complete = False, is_perfect = False,
            validation_details = None, vr_error = Some e\<rparr>)
   \<and> (list_all (\<lambda>p. is_object (snd p)) ps \<longrightarrow>
         vr_error (validate_shape_placement game ps) = None)"
proof (intro conjI allI impI)
  show "validate_body game ps = Inl AttributeError \<longleftrightarrow> \<not> list_all (\<lambda>p. is_object (snd p)) ps"
    using validate_body_fails [of ps game] validate_body_objects [of ps game] by auto
next
  fix e assume "validate_body game ps = Inl e"
  then show "validate_shape_placement game ps =
           \<lparr>accuracy = 0, final_score = 0, correct_count = 0, incorrect_count = 0,
            total_questions = 0, is_complete = False, is_perfect = False,
            validation_details = None, vr_error = Some e\<rparr>"
    by (simp add: validate_shape_placement_def failed_result_def)
next
  assume "list_all (\<lambda>p. is_object (snd p)) ps"
  from validate_body_objects [OF this, of game]
  show "vr_error (validate_shape_placement game ps) = None"
    by (auto simp: validate_shape_placement_def)
qed

text \<open>Witness for C9: the input of the counterexample.\<close>

theorem validator_returns_default_on_failure_witness:
  "\<not> list_all (\<lambda>p. is_object (snd p)) [(''1,1'', PValue (PInt 3))]
   \<and> validate_body scenario_game [(''1,1'', PValue (PInt 3))] = Inl AttributeError
   \<and> final_score (validate_shape_placement scenario_game [(''1,1'', PValue (PInt 3))]) = 0
   \<and> vr_error (validate_shape_placement scenario_game [(''1,1'', PValue (PInt 3))])
       = Some AttributeError"
  using validator_returns_default_on_failure [of scenario_game "[(''1,1'', PValue (PInt 3))]"]
  by (simp add: is_object_def)


section \<open>Tables: queries, keys and saving\<close>

lemma objects_get_Inr_iff: "objects_get xs = Inr x \<longleftrightarrow> xs = [x]"
  by (cases xs rule: objects_get.cases) auto

lemma objects_get_DoesNotExist_iff: "objects_get xs = Inl DoesNotExist \<longleftrightarrow> xs = []"
  by (cases xs rule: objects_get.cases) auto

lemma objects_get_filter_mem: "objects_get (filter Q xs) = Inr x \<Longrightarrow> x \<in> set xs \<and> Q x"
proof -
  assume "objects_get (filter Q xs) = Inr x"
  then have "filter Q xs = [x]" by (simp add: objects_get_Inr_iff)
  then have "x \<in> set (filter Q xs)" by simp
  then show ?thesis by simp
qed

lemma objects_get_not_attr: "objects_get xs \<noteq> Inl AttributeError"
  by (cases xs rule: objects_get.cases) auto

lemma filter_unique:
  assumes "distinct (map f xs)" and "x \<in> set xs" and "Q x" and "\<And>y. Q y \<Longrightarrow> f y = f x"
  shows "filter Q xs = [x]"
  using assms(1,2)
proof (induction xs)
  case Nil
  then show ?case by simp
next
  case (Cons a xs)
  show ?case
  proof (cases "a = x")
    case True
    have "filter Q xs = []"
    proof (rule ccontr)
      assume "filter Q xs \<noteq> []"
      then obtain y where "y \<in> set xs" "Q y"
        by (metis filter_False)
      with assms(4) have "f y = f a" "y \<in> set xs" using True by auto
      then have "f a \<in> f ` set xs" by (metis imageI)
      with Cons.prems(1) show False by simp
    qed
    with True assms(3) show ?thesis by simp
  next
    case False
    with Cons.prems have x: "x \<in> set xs" and d: "distinct (map f xs)" by auto
    from x have "f x \<in> f ` set xs" by (rule imageI)
    with Cons.prems(1) have "f a \<noteq> f x" by auto
    with assms(4) have "\<not> Q a" by blast
    with Cons.IH [OF d x] show ?thesis by simp
  qed
qed

lemma filter_unique_cases:
  assumes "distinct (map f xs)" and "\<And>x y. Q x \<Longrightarrow> Q y \<Longrightarrow> f x = f y"
  shows "filter Q xs = [] \<or> (\<exists>x \<in> set xs. Q x \<and> filter Q xs = [x])"
proof (cases "\<exists>x \<in> set xs. Q x")
  case True
  then obtain x where x: "x \<in> set xs" "Q x" by blast
  have "filter Q xs = [x]"
    using assms(1) x by (rule filter_unique) (rule assms(2) [OF _ x(2)])
  with x show ?thesis by blast
next
  case False
  then show ?thesis by (simp add: filter_empty_conv)
qed

lemma fold_max_ge: "a \<le> fold max ids (a::nat)"
proof (induction ids arbitrary: a)
  case Nil
  show ?case by simp
next
  case (Cons i ids)
  have "a \<le> max i a" by simp
  also have "max i a \<le> fold max ids (max i a)" by (rule Cons.IH)
  finally show ?case by simp
qed

lemma fold_max_mem: "i \<in> set ids \<Longrightarrow> i \<le> fold max ids (a::nat)"
proof (induction ids arbitrary: a)
  case Nil
  then show ?case by simp
next
  case (Cons j ids)
  show ?case
  proof (cases "i = j")
    case True
    have "i \<le> max j a" using True by simp
    also have "max j a \<le> fold max ids (max j a)" by (rule fold_max_ge)
    finally show ?thesis by simp
  next
    case False
    with Cons.prems have "i \<in> set ids" by simp
    then show ?thesis using Cons.IH by simp
  qed
qed

lemma next_pk_fresh: "next_pk ids \<notin> set ids"
proof
  assume "next_pk ids \<in> set ids"
  then have "next_pk ids \<le> fold max ids 0" by (rule fold_max_mem)
  then show False by (simp add: next_pk_def)
qed

lemma save_row_present:
  assumes "pk self \<in> set (map pk rows)"
  shows "save_row pk self rows = map (\<lambda>r. if pk r = pk self then self else r) rows"
  using assms by (simp add: save_row_def)

lemma save_row_mem: "self \<in> set (save_row pk self rows)"
  by (auto simp: save_row_def)

lemma save_row_keeps_others:
  assumes "r \<in> set rows" and "pk r \<noteq> pk self"
  shows "r \<in> set (save_row pk self rows)"
  using assms by (auto simp: save_row_def)

lemma save_row_last:
  assumes "pk self = pk a" and "pk a \<notin> set (map pk rows)"
  shows "save_row pk self (rows @ [a]) = rows @ [self]"
proof -
  have "map (\<lambda>r. if pk r = pk self then self else r) rows = rows"
  proof (rule map_idI)
    fix r assume "r \<in> set rows"
    then have "pk r \<in> set (map pk rows)" by simp
    with assms have "pk r \<noteq> pk self" by metis
    then show "(if pk r = pk self then self else r) = r" by simp
  qed
  then show ?thesis using assms by (simp add: save_row_def)
qed

lemma set_save_row:
  assumes "distinct (map pk rows)" and "old \<in> set rows" and "pk self = pk old"
  shows "set (save_row pk self rows) = insert self (set rows - {old})"
proof -
  have same: "\<And>r. r \<in> set rows \<Longrightarrow> pk r = pk old \<Longrightarrow> r = old"
    using assms(1,2) by (meson distinct_map inj_onD)
  have "pk self \<in> set (map pk rows)" using assms(2,3) by auto
  then have "save_row pk self rows = map (\<lambda>r. if pk r = pk self then self else r) rows"
    by (rule save_row_present)
  then show ?thesis using assms(2,3) same by auto
qed

lemma map_save_row_same:
  assumes "distinct (map pk rows)" and "old \<in> set rows" and "pk self = pk old"
    and "f self = f old"
  shows "map f (save_row pk self rows) = map f rows"
proof -
  have same: "\<And>r. r \<in> set rows \<Longrightarrow> pk r = pk old \<Longrightarrow> r = old"
    using assms(1,2) by (meson distinct_map inj_onD)
  have "pk self \<in> set (map pk rows)" using assms(2,3) by auto
  then have s: "save_row pk self rows = map (\<lambda>r. if pk r = pk self then self else r) rows"
    by (rule save_row_present)
  have "map f (map (\<lambda>r. if pk r = pk self then self else r) rows) = map f rows"
    unfolding map_map
  proof (rule map_cong [OF refl])
    fix r assume "r \<in> set rows"
    then show "(f \<circ> (\<lambda>r. if pk r = pk self then self else r)) r = f r"
      using same [of r] assms(3,4) by (cases "pk r = pk self") simp_all
  qed
  with s show ?thesis by simp
qed


section \<open>The unlock rule\<close>

text \<open>
  Claim C2, as stated, fails when no level has the number \<open>N - 1\<close>: the query for the
  previous level raises \<open>DoesNotExist\<close>, which the method catches to answer \<open>True\<close>. Level
  3 is unlocked for user 7 in a database that holds no progress row at all.
\<close>

theorem unlock_counterexample:
  "1 < level_number level3
   \<and> is_unlocked_for_user level3 7 gap_db = Inr True
   \<and> level_progress gap_db = []"
  by (simp add: is_unlocked_for_user_def gap_db_def empty_db_def level3_def)

text \<open>
  Claim C2, amended. With level numbers unique, as the schema declares them: level 1 is
  always unlocked; a level \<open>N > 1\<close> whose previous level \<open>N - 1\<close> exists is unlocked for a
  user exactly when a progress row of that user for the previous level has \<open>is_completed\<close>;
  a level \<open>N > 1\<close> for which no level \<open>N - 1\<close> exists is unlocked.
\<close>

theorem is_unlocked_for_user_rule:
  assumes "distinct (map level_number (levels d))"
  shows "(level_number self = 1 \<longrightarrow> is_unlocked_for_user self usr d = Inr True)
   \<and> (1 < level_number self \<longrightarrow>
        (\<forall>prev \<in> set (levels d). level_number prev = level_number self - 1 \<longrightarrow>
           is_unlocked_for_user self usr d =
             Inr (\<exists>r \<in> set (level_progress d).
                    lp_user r = usr \<and> lp_level r = level_id prev \<and> is_completed r)))
   \<and> (1 < level_number self \<longrightarrow>
        (\<forall>l \<in> set (levels d). level_number l \<noteq> level_number self - 1) \<longrightarrow>
           is_unlocked_for_user self usr d = Inr True)"
proof (intro conjI impI ballI)
  assume "level_number self = 1"
  then show "is_unlocked_for_user self usr d = Inr True"
    by (simp add: is_unlocked_for_user_def)
next
  fix prev
  assume n: "1 < level_number self" and prev: "prev \<in> set (levels d)"
    and num: "level_number prev = level_number self - 1"
  have "filter (\<lambda>l. level_number l = level_number self - 1) (levels d) = [prev]"
    using assms prev num by (rule filter_unique) (simp add: num)
  moreover have "(filter (\<lambda>r. lp_user r = usr \<and> lp_level r = level_id prev \<and> is_completed r)
                   (level_progress d) \<noteq> []) \<longleftrightarrow>
                 (\<exists>r \<in> set (level_progress d).
                    lp_user r = usr \<and> lp_level r = level_id prev \<and> is_completed r)"
    by (auto simp: filter_empty_conv)
  ultimately show "is_unlocked_for_user self usr d =
             Inr (\<exists>r \<in> set (level_progress d).
                    lp_user r = usr \<and> lp_level r = level_id prev \<and> is_completed r)"
    using n by (simp add: is_unlocked_for_user_def Let_def)
next
  assume n: "1 < level_number self"
    and none: "\<forall>l \<in> set (levels d). level_number l \<noteq> level_number self - 1"
  then have "filter (\<lambda>l. level_number l = level_number self - 1) (levels d) = []"
    by (simp add: filter_empty_conv)
  then show "is_unlocked_for_user self usr d = Inr True"
    using n by (simp add: is_unlocked_for_user_def Let_def)
qed

text \<open>
  Witness for C2: level 2 is unlocked for user 7, who completed level 1, and locked for user
  8, who did not; level 1 is unlocked for user 8.
\<close>

theorem is_unlocked_for_user_rule_witness:
  "distinct (map level_number (levels two_level_db))
   \<and> 1 < level_number level2
   \<and> level1 \<in> set (levels two_level_db)
   \<and> level_number level1 = level_number level2 - 1
   \<and> is_unlocked_for_user level2 7 two_level_db = Inr True
   \<and> is_unlocked_for_user level2 8 two_level_db = Inr False
   \<and> is_unlocked_for_user level1 8 two_level_db = Inr True"
  using is_unlocked_for_user_rule [of two_level_db level2 7]
    is_unlocked_for_user_rule [of two_level_db level2 8]
    is_unlocked_for_user_rule [of two_level_db level1 8]
  by (simp add: two_level_db_def empty_db_def level1_def level2_def progress_done_def)


section \<open>Completing a level\<close>

lemma level_of_found:
  assumes "distinct (map level_id (levels d))" and "lvl \<in> set (levels d)"
    and "level_id lvl = lp_level self"
  shows "level_of d self = Inr lvl"
proof -
  have "filter (\<lambda>l. level_id l = lp_level self) (levels d) = [lvl]"
    using assms(1,2) by (rule filter_unique) (simp_all add: assms(3))
  then show ?thesis by (simp add: level_of_def)
qed

lemma get_or_create_progress_found:
  assumes "distinct (map (\<lambda>r. (lp_user r, lp_level r)) (level_progress d))"
    and "r \<in> set (level_progress d)" and "lp_user r = usr" and "lp_level r = lvl"
  shows "get_or_create_progress usr lvl d = (Inr (r, False), d)"
proof -
  have "filter (\<lambda>r. lp_user r = usr \<and> lp_level r = lvl) (level_progress d) = [r]"
    using assms(1,2) by (rule filter_unique) (simp_all add: assms(3,4))
  then show ?thesis by (simp add: get_or_create_progress_def)
qed

lemma get_or_create_progress_created:
  assumes "\<forall>r \<in> set (level_progress d). \<not> (lp_user r = usr \<and> lp_level r = lvl)"
  shows "get_or_create_progress usr lvl d =
           (Inr (new_progress_row usr lvl d, True),
            d\<lparr>level_progress := level_progress d @ [new_progress_row usr lvl d]\<rparr>)"
proof -
  have "filter (\<lambda>r. lp_user r = usr \<and> lp_level r = lvl) (level_progress d) = []"
    using assms by (simp add: filter_empty_conv)
  then show ?thesis by (simp add: get_or_create_progress_def new_progress_row_def Let_def)
qed

lemma unlock_next_level_none:
  assumes "level_of d self = Inr lvl"
    and "\<forall>l \<in> set (levels d). \<not> (level_number l = level_number lvl + 1 \<and> level_is_active l)"
  shows "unlock_next_level self d = (Inr (), d)"
proof -
  have "filter (\<lambda>l. level_number l = level_number lvl + 1 \<and> level_is_active l) (levels d) = []"
    using assms(2) by (simp add: filter_empty_conv)
  then show ?thesis using assms(1) by (simp add: unlock_next_level_def Let_def)
qed

lemma unlock_next_level_some:
  assumes "level_of d self = Inr lvl" and "distinct (map level_number (levels d))"
    and "nxt \<in> set (levels d)" and "level_number nxt = level_number lvl + 1"
    and "level_is_active nxt"
  shows "unlock_next_level self d =
           (case get_or_create_progress (lp_user self) (level_id nxt) d of
              (Inl e, d') \<Rightarrow> (Inl e, d')
            | (Inr created, d') \<Rightarrow> (Inr (), d'))"
proof -
  have "filter (\<lambda>l. level_number l = level_number lvl + 1 \<and> level_is_active l) (levels d) = [nxt]"
    using assms(2,3) by (rule filter_unique) (simp_all add: assms(4,5))
  then show ?thesis using assms(1) by (simp add: unlock_next_level_def Let_def)
qed

lemma unlock_next_level_wf:
  assumes "level_of d self = Inr lvl" and "distinct (map level_number (levels d))"
    and "distinct (map (\<lambda>r. (lp_user r, lp_level r)) (level_progress d))"
  shows "(\<exists>nxt \<in> set (levels d). level_number nxt = level_number lvl + 1 \<and> level_is_active nxt
            \<and> (\<forall>r \<in> set (level_progress d). \<not> (lp_user r = lp_user self \<and> lp_level r = level_id nxt))
            \<and> unlock_next_level self d =
                (Inr (), d\<lparr>level_progress := level_progress d
                             @ [new_progress_row (lp_user self) (level_id nxt) d]\<rparr>))
         \<or> (unlock_next_level self d = (Inr (), d)
            \<and> (\<forall>nxt \<in> set (levels d). level_number nxt = level_number lvl + 1 \<and> level_is_active nxt
                  \<longrightarrow> (\<exists>r \<in> set (level_progress d).
                         lp_user r = lp_user self \<and> lp_level r = level_id nxt)))"
proof (cases "\<exists>l \<in> set (levels d). level_number l = level_number lvl + 1 \<and> level_is_active l")
  case False
  then have "unlock_next_level self d = (Inr (), d)"
    using unlock_next_level_none [OF assms(1)] by blast
  with False show ?thesis by blast
next
  case True
  then obtain nxt where nxt: "nxt \<in> set (levels d)" "level_number nxt = level_number lvl + 1"
    "level_is_active nxt" by blast
  have only: "l = nxt" if "l \<in> set (levels d)" "level_number l = level_number lvl + 1" for l
    using assms(2) nxt(1,2) that by (metis distinct_map inj_onD)
  note u = unlock_next_level_some [OF assms(1,2) nxt]
  show ?thesis
  proof (cases "\<exists>r \<in> set (level_progress d). lp_user r = lp_user self \<and> lp_level r = level_id nxt")
    case True
    then obtain r where r: "r \<in> set (level_progress d)" "lp_user r = lp_user self"
      "lp_level r = level_id nxt" by blast
    from get_or_create_progress_found [OF assms(3) r]
    have "unlock_next_level self d = (Inr (), d)" using u by simp
    moreover have "\<forall>l \<in> set (levels d). level_number l = level_number lvl + 1 \<and> level_is_active l
                  \<longrightarrow> (\<exists>r \<in> set (level_progress d).
                         lp_user r = lp_user self \<and> lp_level r = level_id l)"
      using only r by blast
    ultimately show ?thesis by blast
  next
    case False
    then have none: "\<forall>r \<in> set (level_progress d).
                 \<not> (lp_user r = lp_user self \<and> lp_level r = level_id nxt)" by blast
    from get_or_create_progress_created [OF none]
    have "unlock_next_level self d =
            (Inr (), d\<lparr>level_progress := level_progress d
                         @ [new_progress_row (lp_user self) (level_id nxt) d]\<rparr>)"
      using u by simp
    with nxt none show ?thesis by blast
  qed
qed

lemma pair_member:
  "(\<exists>r \<in> set rows. lp_user r = u \<and> lp_level r = l) \<longleftrightarrow>
   (u, l) \<in> set (map (\<lambda>r. (lp_user r, lp_level r)) rows)"
  by (induction rows) auto

text \<open>
  Claim C3, as stated, fails when the next sequential level is not active: the query for the
  next level asks for \<open>is_active\<close>, finds nothing, and no progress row is created. The level
  is still marked completed.
\<close>

theorem check_completion_counterexample:
  "puzzles_required level1 \<le> puzzles_completed progress_ready
   \<and> \<not> is_completed progress_ready
   \<and> level_of closed_next_db progress_ready = Inr level1
   \<and> closed_level2 \<in> set (levels closed_next_db)
   \<and> level_number closed_level2 = level_number level1 + 1
   \<and> check_completion progress_ready 100 closed_next_db =
       (Inr (progress_ready\<lparr>is_completed := True, completed_at := Some 100\<rparr>),
        closed_next_db\<lparr>level_progress :=
          [progress_ready\<lparr>is_completed := True, completed_at := Some 100\<rparr>]\<rparr>)"
  by code_simp

text \<open>
  Claim C3, amended. In a database that satisfies the schema's constraints, for a stored
  progress row \<open>self\<close> of level \<open>lvl\<close>: if \<open>puzzles_completed \<ge> puzzles_required\<close> and
  \<open>is_completed\<close> is false, \<open>check_completion\<close> returns normally, changes no table but the
  progress table, and leaves a database that satisfies the constraints again. The progress
  table afterwards is given exactly. The row \<open>self\<close> is replaced, in its place, by the row
  with \<open>is_completed\<close> true and \<open>completed_at\<close> stamped, and every other row is as it was.
  When an active level is numbered one more than \<open>lvl\<close>: if the user already has a row for
  it, nothing is added; if not, one fresh row with default fields for the user and that
  level is appended. When no active level has that number, nothing is added. If
  \<open>is_completed\<close> is already true, nothing changes.
\<close>

theorem check_completion_effect:
  assumes "wf_db d" and "self \<in> set (level_progress d)"
    and "lvl \<in> set (levels d)" and "level_id lvl = lp_level self"
  shows
    "(puzzles_required lvl \<le> puzzles_completed self \<and> \<not> is_completed self \<longrightarrow>
        (\<exists>d'. check_completion self now d =
                 (Inr (self\<lparr>is_completed := True, completed_at := Some now\<rparr>), d')
            \<and> d' = d\<lparr>level_progress := level_progress d'\<rparr>
            \<and> wf_db d'
            \<and> (\<forall>nxt \<in> set (levels d).
                  level_number nxt = level_number lvl + 1 \<and> level_is_active nxt \<longrightarrow>
                  level_progress d' =
                    (if \<exists>r \<in> set (level_progress d).
                          lp_user r = lp_user self \<and> lp_level r = level_id nxt
                     then map (\<lambda>r. if lp_id r = lp_id self
                                     then self\<lparr>is_completed := True, completed_at := Some now\<rparr>
                                     else r) (level_progress d)
                     else map (\<lambda>r. if lp_id r = lp_id self
                                     then self\<lparr>is_completed := True, completed_at := Some now\<rparr>
                                     else r) (level_progress d)
                          @ [new_progress_row (lp_user self) (level_id nxt) d]))
            \<and> ((\<forall>l \<in> set (levels d).
                   \<not> (level_number l = level_number lvl + 1 \<and> level_is_active l)) \<longrightarrow>
                  level_progress d' =
                    map (\<lambda>r. if lp_id r = lp_id self
                              then self\<lparr>is_completed := True, completed_at := Some now\<rparr>
                              else r) (level_progress d))
            \<and> (set (level_progress d') =
                  insert (self\<lparr>is_completed := True, completed_at := Some now\<rparr>)
                    (set (level_progress d) - {self})
               \<or> (\<exists>nxt \<in> set (levels d).
                     level_number nxt = level_number lvl + 1 \<and> level_is_active nxt
                     \<and> set (level_progress d') =
                         insert (new_progress_row (lp_user self) (level_id nxt) d)
                           (insert (self\<lparr>is_completed := True, completed_at := Some now\<rparr>)
                              (set (level_progress d) - {self}))))
            \<and> (\<forall>nxt \<in> set (levels d).
                  level_number nxt = level_number lvl + 1 \<and> level_is_active nxt \<longrightarrow>
                  (\<exists>r \<in> set (level_progress d').
                     lp_user r = lp_user self \<and> lp_level r = level_id nxt))))
     \<and> (is_completed self \<longrightarrow> check_completion self now d = (Inr self, d))"
proof (intro conjI impI)
  have lvl: "level_of d self = Inr lvl"
    using assms unfolding wf_db_def by (intro level_of_found) simp_all
  {
    assume "is_completed self"
    then show "check_completion self now d = (Inr self, d)"
      using lvl by (simp add: check_completion_def)
  }
  assume guard: "puzzles_required lvl \<le> puzzles_completed self \<and> \<not> is_completed self"
  define self' where "self' = self\<lparr>is_completed := True, completed_at := Some now\<rparr>"
  define saved where
    "saved = map (\<lambda>r. if lp_id r = lp_id self then self' else r) (level_progress d)"
  define d1 where "d1 = d\<lparr>level_progress := save_row lp_id self' (level_progress d)\<rparr>"
  have pk: "lp_id self' = lp_id self" by (simp add: self'_def)
  have dist: "distinct (map lp_id (level_progress d))"
    and pairs: "distinct (map (\<lambda>r. (lp_user r, lp_level r)) (level_progress d))"
    and nums: "distinct (map level_number (levels d))"
    and lids: "distinct (map level_id (levels d))"
    using assms(1) by (simp_all add: wf_db_def)
  have "lp_id self' \<in> set (map lp_id (level_progress d))" using assms(2) pk by auto
  then have list1: "level_progress d1 = saved"
    unfolding d1_def saved_def using save_row_present [of lp_id self' "level_progress d"]
    by (simp add: pk)
  have rows1: "set (level_progress d1) = insert self' (set (level_progress d) - {self})"
    unfolding d1_def using set_save_row [OF dist assms(2) pk] by simp
  have ids1: "map lp_id (level_progress d1) = map lp_id (level_progress d)"
    unfolding d1_def using map_save_row_same [OF dist assms(2) pk, of lp_id] pk by simp
  have pairs1: "map (\<lambda>r. (lp_user r, lp_level r)) (level_progress d1)
                 = map (\<lambda>r. (lp_user r, lp_level r)) (level_progress d)"
    unfolding d1_def
    using map_save_row_same [OF dist assms(2) pk, of "\<lambda>r. (lp_user r, lp_level r)"]
    by (simp add: self'_def)
  have match: "(\<exists>r \<in> set (level_progress d1). lp_user r = u \<and> lp_level r = l) \<longleftrightarrow>
               (\<exists>r \<in> set (level_progress d). lp_user r = u \<and> lp_level r = l)" for u l
    unfolding pair_member pairs1 ..
  have lvl1: "level_of d1 self' = Inr lvl"
    using lvl by (simp add: level_of_def d1_def self'_def)
  have new1: "new_progress_row u l d1 = new_progress_row u l d" for u l
    by (simp add: new_progress_row_def ids1)
  have cc: "check_completion self now d =
              (case unlock_next_level self' d1 of
                 (Inl e, d'') \<Rightarrow> (Inl e, d'')
               | (Inr u, d'') \<Rightarrow> (Inr self', d''))"
    unfolding self'_def d1_def using lvl guard by (simp add: check_completion_def Let_def)
  have nums1: "distinct (map level_number (levels d1))" using nums by (simp add: d1_def)
  have pairs1': "distinct (map (\<lambda>r. (lp_user r, lp_level r)) (level_progress d1))"
    using pairs pairs1 by simp
  have user': "lp_user self' = lp_user self" by (simp add: self'_def)
  have wf1: "wf_db d1"
    using lids nums dist pairs ids1 pairs1 by (simp add: wf_db_def d1_def)
  from unlock_next_level_wf [OF lvl1 nums1 pairs1']
  have "\<exists>d'. check_completion self now d = (Inr self', d')
            \<and> d' = d\<lparr>level_progress := level_progress d'\<rparr>
            \<and> wf_db d'
            \<and> (\<forall>nxt \<in> set (levels d).
                  level_number nxt = level_number lvl + 1 \<and> level_is_active nxt \<longrightarrow>
                  level_progress d' =
                    (if \<exists>r \<in> set (level_progress d).
                          lp_user r = lp_user self \<and> lp_level r = level_id nxt
                     then saved
                     else saved @ [new_progress_row (lp_user self) (level_id nxt) d]))
            \<and> ((\<forall>l \<in> set (levels d).
                   \<not> (level_number l = level_number lvl + 1 \<and> level_is_active l)) \<longrightarrow>
                  level_progress d' = saved)
            \<and> (set (level_progress d') = insert self' (set (level_progress d) - {self})
               \<or> (\<exists>nxt \<in> set (levels d).
                     level_number nxt = level_number lvl + 1 \<and> level_is_active nxt
                     \<and> set (level_progress d') =
                         insert (new_progress_row (lp_user self) (level_id nxt) d)
                           (insert self' (set (level_progress d) - {self}))))
            \<and> (\<forall>nxt \<in> set (levels d).
                  level_number nxt = level_number lvl + 1 \<and> level_is_active nxt \<longrightarrow>
                  (\<exists>r \<in> set (level_progress d').
                     lp_user r = lp_user self \<and> lp_level r = level_id nxt))"
  proof (elim disjE bexE conjE)
    fix nxt
    assume nxt: "nxt \<in> set (levels d1)" "level_number nxt = level_number lvl + 1"
      "level_is_active nxt"
      and none1: "\<forall>r \<in> set (level_progress d1).
                    \<not> (lp_user r = lp_user self' \<and> lp_level r = level_id nxt)"
      and u: "unlock_next_level self' d1 =
                (Inr (), d1\<lparr>level_progress := level_progress d1
                             @ [new_progress_row (lp_user self') (level_id nxt) d1]\<rparr>)"
    define new where "new = new_progress_row (lp_user self) (level_id nxt) d"
    define d' where "d' = d1\<lparr>level_progress := level_progress d1 @ [new]\<rparr>"
    have u': "unlock_next_level self' d1 = (Inr (), d')"
      using u by (simp add: d'_def new_def new1 user')
    have nxt': "nxt \<in> set (levels d)" using nxt(1) by (simp add: d1_def)
    have only: "l = nxt" if "l \<in> set (levels d)" "level_number l = level_number lvl + 1" for l
      using nums nxt' nxt(2) that by (metis distinct_map inj_onD)
    have none: "\<not> (\<exists>r \<in> set (level_progress d).
                     lp_user r = lp_user self \<and> lp_level r = level_id nxt)"
    proof -
      have "\<not> (\<exists>r \<in> set (level_progress d1).
                     lp_user r = lp_user self \<and> lp_level r = level_id nxt)"
        using none1 by (simp add: user')
      then show ?thesis unfolding match .
    qed
    have c1: "check_completion self now d = (Inr self', d')" using cc u' by simp
    have c2: "d' = d\<lparr>level_progress := level_progress d'\<rparr>" by (simp add: d'_def d1_def)
    have rows': "level_progress d' = saved @ [new]" by (simp add: d'_def list1)
    have newid: "lp_id new \<notin> set (map lp_id (level_progress d))"
      unfolding new_def new_progress_row_def
      using next_pk_fresh [of "map lp_id (level_progress d)"] by simp
    have newpair: "(lp_user new, lp_level new)
                     \<notin> set (map (\<lambda>r. (lp_user r, lp_level r)) (level_progress d))"
      using none unfolding pair_member by (simp add: new_def new_progress_row_def)
    have w: "wf_db d'"
      using lids nums dist pairs newid newpair ids1 pairs1
      by (simp add: wf_db_def d'_def d1_def)
    have c4: "\<forall>l \<in> set (levels d).
                  level_number l = level_number lvl + 1 \<and> level_is_active l \<longrightarrow>
                  level_progress d' =
                    (if \<exists>r \<in> set (level_progress d).
                          lp_user r = lp_user self \<and> lp_level r = level_id l
                     then saved
                     else saved @ [new_progress_row (lp_user self) (level_id l) d])"
    proof (intro ballI impI)
      fix l assume "l \<in> set (levels d)"
        "level_number l = level_number lvl + 1 \<and> level_is_active l"
      then have "l = nxt" using only by blast
      then show "level_progress d' =
                    (if \<exists>r \<in> set (level_progress d).
                          lp_user r = lp_user self \<and> lp_level r = level_id l
                     then saved
                     else saved @ [new_progress_row (lp_user self) (level_id l) d])"
        using none rows' by (simp add: new_def)
    qed
    have c5: "(\<forall>l \<in> set (levels d).
                   \<not> (level_number l = level_number lvl + 1 \<and> level_is_active l)) \<longrightarrow>
                  level_progress d' = saved"
      using nxt' nxt(2,3) by blast
    have c6: "set (level_progress d') = insert new (insert self' (set (level_progress d) - {self}))"
      using rows1 by (simp add: d'_def)
    have c7: "\<forall>l \<in> set (levels d).
                  level_number l = level_number lvl + 1 \<and> level_is_active l \<longrightarrow>
                  (\<exists>r \<in> set (level_progress d').
                     lp_user r = lp_user self \<and> lp_level r = level_id l)"
    proof (intro ballI impI)
      fix l assume "l \<in> set (levels d)"
        "level_number l = level_number lvl + 1 \<and> level_is_active l"
      then have "l = nxt" using only by blast
      moreover have "new \<in> set (level_progress d')" by (simp add: rows')
      moreover have "lp_user new = lp_user self" "lp_level new = level_id nxt"
        by (simp_all add: new_def new_progress_row_def)
      ultimately show "\<exists>r \<in> set (level_progress d').
                     lp_user r = lp_user self \<and> lp_level r = level_id l"
        by blast
    qed
    have c6x: "\<exists>n \<in> set (levels d).
                     level_number n = level_number lvl + 1 \<and> level_is_active n
                     \<and> set (level_progress d') =
                         insert (new_progress_row (lp_user self) (level_id n) d)
                           (insert self' (set (level_progress d) - {self}))"
      using nxt' nxt(2,3) c6 unfolding new_def by blast
    show ?thesis
      by (rule exI [of _ d']) (intro conjI c1 c2 w c4 c5 disjI2 c6x c7)
  next
    assume u: "unlock_next_level self' d1 = (Inr (), d1)"
      and ex: "\<forall>nxt \<in> set (levels d1).
                 level_number nxt = level_number lvl + 1 \<and> level_is_active nxt \<longrightarrow>
                 (\<exists>r \<in> set (level_progress d1).
                    lp_user r = lp_user self' \<and> lp_level r = level_id nxt)"
    have c1: "check_completion self now d = (Inr self', d1)" using cc u by simp
    have c2: "d1 = d\<lparr>level_progress := level_progress d1\<rparr>" by (simp add: d1_def)
    have ex': "\<forall>nxt \<in> set (levels d).
                 level_number nxt = level_number lvl + 1 \<and> level_is_active nxt \<longrightarrow>
                 (\<exists>r \<in> set (level_progress d).
                    lp_user r = lp_user self \<and> lp_level r = level_id nxt)"
    proof (intro ballI impI)
      fix nxt assume n: "nxt \<in> set (levels d)"
        "level_number nxt = level_number lvl + 1 \<and> level_is_active nxt"
      then have "nxt \<in> set (levels d1)" by (simp add: d1_def)
      with ex n(2) have "\<exists>r \<in> set (level_progress d1).
                    lp_user r = lp_user self \<and> lp_level r = level_id nxt"
        by (simp add: user')
      then show "\<exists>r \<in> set (level_progress d).
                    lp_user r = lp_user self \<and> lp_level r = level_id nxt"
        unfolding match .
    qed
    have c4: "\<forall>nxt \<in> set (levels d).
                  level_number nxt = level_number lvl + 1 \<and> level_is_active nxt \<longrightarrow>
                  level_progress d1 =
                    (if \<exists>r \<in> set (level_progress d).
                          lp_user r = lp_user self \<and> lp_level r = level_id nxt
                     then saved
                     else saved @ [new_progress_row (lp_user self) (level_id nxt) d])"
      using ex' list1 by simp
    have c5: "(\<forall>l \<in> set (levels d).
                   \<not> (level_number l = level_number lvl + 1 \<and> level_is_active l)) \<longrightarrow>
                  level_progress d1 = saved"
      using list1 by simp
    have c7: "\<forall>nxt \<in> set (levels d).
                 level_number nxt = level_number lvl + 1 \<and> level_is_active nxt \<longrightarrow>
                 (\<exists>r \<in> set (level_progress d1).
                    lp_user r = lp_user self \<and> lp_level r = level_id nxt)"
      using ex by (simp add: d1_def user')
    show ?thesis
      by (rule exI [of _ d1]) (intro conjI c1 c2 wf1 c4 c5 disjI1 rows1 c7)
  qed
  then show "\<exists>d'. check_completion self now d =
                 (Inr (self\<lparr>is_completed := True, completed_at := Some now\<rparr>), d')
            \<and> d' = d\<lparr>level_progress := level_progress d'\<rparr>
            \<and> wf_db d'
            \<and> (\<forall>nxt \<in> set (levels d).
                  level_number nxt = level_number lvl + 1 \<and> level_is_active nxt \<longrightarrow>
                  level_progress d' =
                    (if \<exists>r \<in> set (level_progress d).
                          lp_user r = lp_user self \<and> lp_level r = level_id nxt
                     then map (\<lambda>r. if lp_id r = lp_id self
                                     then self\<lparr>is_completed := True, completed_at := Some now\<rparr>
                                     else r) (level_progress d)
                     else map (\<lambda>r. if lp_id r = lp_id self
                                     then self\<lparr>is_completed := True, completed_at := Some now\<rparr>
                                     else r) (level_progress d)
                          @ [new_progress_row (lp_user self) (level_id nxt) d]))
            \<and> ((\<forall>l \<in> set (levels d).
                   \<not> (level_number l = level_number lvl + 1 \<and> level_is_active l)) \<longrightarrow>
                  level_progress d' =
                    map (\<lambda>r. if lp_id r = lp_id self
                              then self\<lparr>is_completed := True, completed_at := Some now\<rparr>
                              else r) (level_progress d))
            \<and> (set (level_progress d') =
                  insert (self\<lparr>is_completed := True, completed_at := Some now\<rparr>)
                    (set (level_progress d) - {self})
               \<or> (\<exists>nxt \<in> set (levels d).
                     level_number nxt = level_number lvl + 1 \<and> level_is_active nxt
                     \<and> set (level_progress d') =
                         insert (new_progress_row (lp_user self) (level_id nxt) d)
                           (insert (self\<lparr>is_completed := True, completed_at := Some now\<rparr>)
                              (set (level_progress d) - {self}))))
            \<and> (\<forall>nxt \<in> set (levels d).
                  level_number nxt = level_number lvl + 1 \<and> level_is_active nxt \<longrightarrow>
                  (\<exists>r \<in> set (level_progress d').
                     lp_user r = lp_user self \<and> lp_level r = level_id nxt))"
    unfolding saved_def self'_def .
qed

lemma ready_db_check:
  "check_completion progress_ready 100 ready_db =
       (Inr (progress_ready\<lparr>is_completed := True, completed_at := Some 100\<rparr>),
        ready_db\<lparr>level_progress :=
          [progress_ready\<lparr>is_completed := True, completed_at := Some 100\<rparr>,
           \<lparr>lp_id = 2, lp_user = 7, lp_level = 2, puzzles_completed = 0,
            is_completed = False, completed_at = None, total_score = 0\<rparr>]\<rparr>)"
  by code_simp

text \<open>
  Witness for C3: user 7 has two of two puzzles of level 1; the row becomes completed and a
  row for level 2 appears. When user 7 already has the row of level 2, the table keeps its
  two rows. On the row that is already completed nothing changes.
\<close>

theorem check_completion_effect_witness:
  "wf_db ready_db
   \<and> progress_ready \<in> set (level_progress ready_db)
   \<and> level1 \<in> set (levels ready_db)
   \<and> level_id level1 = lp_level progress_ready
   \<and> puzzles_required level1 \<le> puzzles_completed progress_ready
   \<and> \<not> is_completed progress_ready
   \<and> level2 \<in> set (levels ready_db)
   \<and> level_number level2 = level_number level1 + 1
   \<and> level_is_active level2
   \<and> level_progress (snd (check_completion progress_ready 100 ready_db)) =
       [progress_ready\<lparr>is_completed := True, completed_at := Some 100\<rparr>,
        \<lparr>lp_id = 2, lp_user = 7, lp_level = 2, puzzles_completed = 0,
         is_completed = False, completed_at = None, total_score = 0\<rparr>]
   \<and> wf_db (snd (check_completion progress_ready 100 ready_db))
   \<and> wf_db started_db
   \<and> progress_ready \<in> set (level_progress started_db)
   \<and> level2 \<in> set (levels started_db)
   \<and> next_started \<in> set (level_progress started_db)
   \<and> lp_user next_started = lp_user progress_ready
   \<and> lp_level next_started = level_id level2
   \<and> level_progress (snd (check_completion progress_ready 100 started_db)) =
       [progress_ready\<lparr>is_completed := True, completed_at := Some 100\<rparr>, next_started]
   \<and> wf_db two_level_db
   \<and> progress_done \<in> set (level_progress two_level_db)
   \<and> is_completed progress_done
   \<and> check_completion progress_done 100 two_level_db = (Inr progress_done, two_level_db)"
proof -
  have w: "wf_db ready_db" by code_simp
  have s: "progress_ready \<in> set (level_progress ready_db)" by code_simp
  have l: "level1 \<in> set (levels ready_db)" by code_simp
  have i: "level_id level1 = lp_level progress_ready" by code_simp
  have g: "puzzles_required level1 \<le> puzzles_completed progress_ready"
    "\<not> is_completed progress_ready" by code_simp+
  have n: "level2 \<in> set (levels ready_db)" "level_number level2 = level_number level1 + 1"
    "level_is_active level2" by code_simp+
  have absent: "\<not> (\<exists>r \<in> set (level_progress ready_db).
                      lp_user r = lp_user progress_ready \<and> lp_level r = level_id level2)"
    by code_simp
  have saved: "map (\<lambda>r. if lp_id r = lp_id progress_ready
                 then progress_ready\<lparr>is_completed := True, completed_at := Some 100\<rparr>
                 else r) (level_progress ready_db)
               @ [new_progress_row (lp_user progress_ready) (level_id level2) ready_db]
             = [progress_ready\<lparr>is_completed := True, completed_at := Some 100\<rparr>,
                \<lparr>lp_id = 2, lp_user = 7, lp_level = 2, puzzles_completed = 0,
                 is_completed = False, completed_at = None, total_score = 0\<rparr>]"
    by code_simp
  from check_completion_effect [OF w s l i, of 100] g
  have "\<exists>d'. check_completion progress_ready 100 ready_db =
      (Inr (progress_ready\<lparr>is_completed := True, completed_at := Some 100\<rparr>), d')
    \<and> wf_db d'
    \<and> (\<forall>nxt \<in> set (levels ready_db).
       level_number nxt = level_number level1 + 1 \<and> level_is_active nxt \<longrightarrow>
       level_progress d' =
         (if \<exists>r \<in> set (level_progress ready_db).
               lp_user r = lp_user progress_ready \<and> lp_level r = level_id nxt
          then map (\<lambda>r. if lp_id r = lp_id progress_ready
                 then progress_ready\<lparr>is_completed := True, completed_at := Some 100\<rparr>
                 else r) (level_progress ready_db)
          else map (\<lambda>r. if lp_id r = lp_id progress_ready
                 then progress_ready\<lparr>is_completed := True, completed_at := Some 100\<rparr>
                 else r) (level_progress ready_db)
               @ [new_progress_row (lp_user progress_ready) (level_id nxt) ready_db]))"
    by blast
  then obtain d' where d': "check_completion progress_ready 100 ready_db =
      (Inr (progress_ready\<lparr>is_completed := True, completed_at := Some 100\<rparr>), d')"
    "wf_db d'"
    and all: "\<forall>nxt \<in> set (levels ready_db).
       level_number nxt = level_number level1 + 1 \<and> level_is_active nxt \<longrightarrow>
       level_progress d' =
         (if \<exists>r \<in> set (level_progress ready_db).
               lp_user r = lp_user progress_ready \<and> lp_level r = level_id nxt
          then map (\<lambda>r. if lp_id r = lp_id progress_ready
                 then progress_ready\<lparr>is_completed := True, completed_at := Some 100\<rparr>
                 else r) (level_progress ready_db)
          else map (\<lambda>r. if lp_id r = lp_id progress_ready
                 then progress_ready\<lparr>is_completed := True, completed_at := Some 100\<rparr>
                 else r) (level_progress ready_db)
               @ [new_progress_row (lp_user progress_ready) (level_id nxt) ready_db])"
    by blast
  from all n have "level_progress d' =
         (if \<exists>r \<in> set (level_progress ready_db).
               lp_user r = lp_user progress_ready \<and> lp_level r = level_id level2
          then map (\<lambda>r. if lp_id r = lp_id progress_ready
                 then progress_ready\<lparr>is_completed := True, completed_at := Some 100\<rparr>
                 else r) (level_progress ready_db)
          else map (\<lambda>r. if lp_id r = lp_id progress_ready
                 then progress_ready\<lparr>is_completed := True, completed_at := Some 100\<rparr>
                 else r) (level_progress ready_db)
               @ [new_progress_row (lp_user progress_ready) (level_id level2) ready_db])"
    by blast
  then have rows: "level_progress d' =
       [progress_ready\<lparr>is_completed := True, completed_at := Some 100\<rparr>,
        \<lparr>lp_id = 2, lp_user = 7, lp_level = 2, puzzles_completed = 0,
         is_completed = False, completed_at = None, total_score = 0\<rparr>]"
    using absent by (simp only: if_False saved)
  have snd1: "snd (check_completion progress_ready 100 ready_db) = d'" using d'(1) by simp
  have a: "level_progress (snd (check_completion progress_ready 100 ready_db)) =
       [progress_ready\<lparr>is_completed := True, completed_at := Some 100\<rparr>,
        \<lparr>lp_id = 2, lp_user = 7, lp_level = 2, puzzles_completed = 0,
         is_completed = False, completed_at = None, total_score = 0\<rparr>]"
    using rows unfolding snd1 .
  have a2: "wf_db (snd (check_completion progress_ready 100 ready_db))"
    using d'(2) unfolding snd1 .
  have w3: "wf_db started_db" by code_simp
  have s3: "progress_ready \<in> set (level_progress started_db)" by code_simp
  have l3: "level1 \<in> set (levels started_db)" by code_simp
  have n3: "level2 \<in> set (levels started_db)" by code_simp
  have p3: "next_started \<in> set (level_progress started_db)"
    "lp_user next_started = lp_user progress_ready" "lp_level next_started = level_id level2"
    by code_simp+
  have saved3: "map (\<lambda>r. if lp_id r = lp_id progress_ready
                 then progress_ready\<lparr>is_completed := True, completed_at := Some 100\<rparr>
                 else r) (level_progress started_db)
             = [progress_ready\<lparr>is_completed := True, completed_at := Some 100\<rparr>, next_started]"
    by code_simp
  have present: "\<exists>r \<in> set (level_progress started_db).
                   lp_user r = lp_user progress_ready \<and> lp_level r = level_id level2"
    using p3 by blast
  from check_completion_effect [OF w3 s3 l3 i, of 100] g
  have "\<exists>d3. check_completion progress_ready 100 started_db =
      (Inr (progress_ready\<lparr>is_completed := True, completed_at := Some 100\<rparr>), d3)
    \<and> (\<forall>nxt \<in> set (levels started_db).
       level_number nxt = level_number level1 + 1 \<and> level_is_active nxt \<longrightarrow>
       level_progress d3 =
         (if \<exists>r \<in> set (level_progress started_db).
               lp_user r = lp_user progress_ready \<and> lp_level r = level_id nxt
          then map (\<lambda>r. if lp_id r = lp_id progress_ready
                 then progress_ready\<lparr>is_completed := True, completed_at := Some 100\<rparr>
                 else r) (level_progress started_db)
          else map (\<lambda>r. if lp_id r = lp_id progress_ready
                 then progress_ready\<lparr>is_completed := True, completed_at := Some 100\<rparr>
                 else r) (level_progress started_db)
               @ [new_progress_row (lp_user progress_ready) (level_id nxt) started_db]))"
    by blast
  then obtain d3 where d3: "check_completion progress_ready 100 started_db =
      (Inr (progress_ready\<lparr>is_completed := True, completed_at := Some 100\<rparr>), d3)"
    and all3: "\<forall>nxt \<in> set (levels started_db).
       level_number nxt = level_number level1 + 1 \<and> level_is_active nxt \<longrightarrow>
       level_progress d3 =
         (if \<exists>r \<in> set (level_progress started_db).
               lp_user r = lp_user progress_ready \<and> lp_level r = level_id nxt
          then map (\<lambda>r. if lp_id r = lp_id progress_ready
                 then progress_ready\<lparr>is_completed := True, completed_at := Some 100\<rparr>
                 else r) (level_progress started_db)
          else map (\<lambda>r. if lp_id r = lp_id progress_ready
                 then progress_ready\<lparr>is_completed := True, completed_at := Some 100\<rparr>
                 else r) (level_progress started_db)
               @ [new_progress_row (lp_user progress_ready) (level_id nxt) started_db])"
    by blast
  from all3 n3 n(2,3) have "level_progress d3 =
         (if \<exists>r \<in> set (level_progress started_db).
               lp_user r = lp_user progress_ready \<and> lp_level r = level_id level2
          then map (\<lambda>r. if lp_id r = lp_id progress_ready
                 then progress_ready\<lparr>is_completed := True, completed_at := Some 100\<rparr>
                 else r) (level_progress started_db)
          else map (\<lambda>r. if lp_id r = lp_id progress_ready
                 then progress_ready\<lparr>is_completed := True, completed_at := Some 100\<rparr>
                 else r) (level_progress started_db)
               @ [new_progress_row (lp_user progress_ready) (level_id level2) started_db])"
    by blast
  then have rows3: "level_progress d3 =
       [progress_ready\<lparr>is_completed := True, completed_at := Some 100\<rparr>, next_started]"
    using present by (simp only: if_True saved3)
  have snd3: "snd (check_completion progress_ready 100 started_db) = d3" using d3 by simp
  have b3: "level_progress (snd (check_completion progress_ready 100 started_db)) =
       [progress_ready\<lparr>is_completed := True, completed_at := Some 100\<rparr>, next_started]"
    using rows3 unfolding snd3 .
  have w2: "wf_db two_level_db" by code_simp
  have s2: "progress_done \<in> set (level_progress two_level_db)" by code_simp
  have l2: "level1 \<in> set (levels two_level_db)" by code_simp
  have i2: "level_id level1 = lp_level progress_done" by code_simp
  have c2: "is_completed progress_done" by code_simp
  from check_completion_effect [OF w2 s2 l2 i2, of 100] c2
  have b: "check_completion progress_done 100 two_level_db = (Inr progress_done, two_level_db)"
    by blast
  show ?thesis
    using w s l i g n a a2 w3 s3 n3 p3 b3 w2 s2 c2 b by blast
qed


section \<open>Progress over sequences of core operations\<close>

subsection \<open>The preservation relation\<close>

lemma meets_requirement_cong:
  assumes "levels d' = levels d" and "lp_level r' = lp_level r"
    and "puzzles_completed r \<le> puzzles_completed r'" and "meets_requirement d r"
  shows "meets_requirement d' r'"
  using assms by (auto simp: meets_requirement_def level_of_def split: sum.splits)

lemma row_advances_refl: "row_advances d r r"
  by (simp add: row_advances_def)

lemma row_advances_trans:
  assumes "levels d' = levels d" and "row_advances d r r'" and "row_advances d' r' r''"
  shows "row_advances d r r''"
proof -
  have "meets_requirement d r''" if "\<not> is_completed r" "is_completed r''"
  proof (cases "is_completed r'")
    case True
    with assms(2) that(1) have "meets_requirement d r'" by (simp add: row_advances_def)
    then show ?thesis
      using assms(3) by (intro meets_requirement_cong [of d d r'' r']) (simp_all add: row_advances_def)
  next
    case False
    with assms(3) that(2) have "meets_requirement d' r''" by (simp add: row_advances_def)
    then show ?thesis
      using assms(1) by (intro meets_requirement_cong [of d d' r'' r'']) simp_all
  qed
  with assms(2,3) show ?thesis by (auto simp: row_advances_def)
qed

lemma progress_preserved_refl:
  "distinct (map lp_id (level_progress d)) \<Longrightarrow> progress_preserved d d"
  unfolding progress_preserved_def using row_advances_refl by blast

lemma progress_preserved_trans:
  assumes "progress_preserved d d'" and "progress_preserved d' d''"
  shows "progress_preserved d d''"
proof -
  have lv: "levels d' = levels d" "levels d'' = levels d'"
    using assms by (simp_all add: progress_preserved_def)
  have dist: "distinct (map lp_id (level_progress d''))"
    using assms(2) by (simp add: progress_preserved_def)
  have old: "\<exists>r'' \<in> set (level_progress d''). row_advances d r r''"
    if "r \<in> set (level_progress d)" for r
  proof -
    from assms(1) that obtain r' where r': "r' \<in> set (level_progress d')" "row_advances d r r'"
      by (auto simp: progress_preserved_def)
    from assms(2) r'(1) obtain r'' where r'': "r'' \<in> set (level_progress d'')"
      "row_advances d' r' r''"
      by (auto simp: progress_preserved_def)
    from row_advances_trans [OF lv(1) r'(2) r''(2)] r''(1) show ?thesis by blast
  qed
  have new: "meets_requirement d r''"
    if r'': "r'' \<in> set (level_progress d'')" "lp_id r'' \<notin> lp_id ` set (level_progress d)"
      "is_completed r''" for r''
  proof (cases "lp_id r'' \<in> lp_id ` set (level_progress d')")
    case False
    with assms(2) r'' have "meets_requirement d' r''" by (simp add: progress_preserved_def)
    then show ?thesis using lv(1) by (intro meets_requirement_cong [of d d' r'' r'']) simp_all
  next
    case True
    then obtain r' where r': "r' \<in> set (level_progress d')" "lp_id r' = lp_id r''" by auto
    from assms(2) r'(1) obtain r2 where r2: "r2 \<in> set (level_progress d'')"
      "row_advances d' r' r2"
      by (auto simp: progress_preserved_def)
    have "lp_id r2 = lp_id r''" using r2(2) r'(2) by (simp add: row_advances_def)
    with dist r2(1) r''(1) have eq: "r2 = r''" by (meson distinct_map inj_onD)
    show ?thesis
    proof (cases "is_completed r'")
      case True
      with assms(1) r'(1,2) r''(2) have "meets_requirement d r'"
        by (simp add: progress_preserved_def)
      then show ?thesis
        using r2(2) eq by (intro meets_requirement_cong [of d d r'' r']) (simp_all add: row_advances_def)
    next
      case False
      with r2(2) eq r''(3) have "meets_requirement d' r''" by (simp add: row_advances_def)
      then show ?thesis using lv(1) by (intro meets_requirement_cong [of d d' r'' r'']) simp_all
    qed
  qed
  from lv dist old new show ?thesis unfolding progress_preserved_def by auto
qed

lemma progress_preserved_append:
  assumes "distinct (map lp_id (level_progress d))"
  shows "progress_preserved d
           (d\<lparr>level_progress := level_progress d @ [new_progress_row usr lvl d]\<rparr>)"
proof -
  have "lp_id (new_progress_row usr lvl d) \<notin> set (map lp_id (level_progress d))"
    unfolding new_progress_row_def using next_pk_fresh [of "map lp_id (level_progress d)"] by simp
  moreover have "\<not> is_completed (new_progress_row usr lvl d)"
    by (simp add: new_progress_row_def)
  moreover have "\<exists>r' \<in> set (level_progress d @ [new_progress_row usr lvl d]).
                   row_advances d r r'" if "r \<in> set (level_progress d)" for r
    using that row_advances_refl [of d r] by auto
  ultimately show ?thesis
    using assms unfolding progress_preserved_def by auto
qed

lemma progress_preserved_save:
  assumes "distinct (map lp_id (level_progress d))" and "old \<in> set (level_progress d)"
    and "row_advances d old new"
  shows "progress_preserved d (d\<lparr>level_progress := save_row lp_id new (level_progress d)\<rparr>)"
proof -
  have pk: "lp_id new = lp_id old" using assms(3) by (simp add: row_advances_def)
  have rows: "set (save_row lp_id new (level_progress d)) = insert new (set (level_progress d) - {old})"
    using assms(1,2) pk by (rule set_save_row)
  have ids: "map lp_id (save_row lp_id new (level_progress d)) = map lp_id (level_progress d)"
    using assms(1,2) pk pk by (rule map_save_row_same)
  have "\<exists>r' \<in> insert new (set (level_progress d) - {old}). row_advances d r r'"
    if "r \<in> set (level_progress d)" for r
  proof (cases "r = old")
    case True
    with assms(3) show ?thesis by blast
  next
    case False
    with that row_advances_refl [of d r] show ?thesis by blast
  qed
  moreover have "lp_id r' \<in> lp_id ` set (level_progress d)"
    if "r' \<in> insert new (set (level_progress d) - {old})" for r'
    using that pk assms(2) by auto
  ultimately show ?thesis
    using assms(1) unfolding progress_preserved_def by (simp add: rows ids)
qed

lemma progress_preserved_other:
  assumes "distinct (map lp_id (level_progress d))"
    and "levels d' = levels d" and "level_progress d' = level_progress d"
  shows "progress_preserved d d'"
  unfolding progress_preserved_def using assms row_advances_refl by auto

lemma progress_preserved_distinct:
  "progress_preserved d d' \<Longrightarrow> distinct (map lp_id (level_progress d'))"
  by (simp add: progress_preserved_def)

subsection \<open>Every operation of games/models.py preserves progress\<close>

lemma get_or_create_progress_result:
  assumes "get_or_create_progress usr lvl d = (res, d')"
  shows "(d' = d \<and> (\<exists>e. res = Inl e)) \<or>
         (d' = d \<and> (\<exists>r \<in> set (level_progress d). res = Inr (r, False))) \<or>
         (d' = d\<lparr>level_progress := level_progress d @ [new_progress_row usr lvl d]\<rparr>
            \<and> res = Inr (new_progress_row usr lvl d, True))"
proof (cases "objects_get (filter (\<lambda>r. lp_user r = usr \<and> lp_level r = lvl) (level_progress d))")
  case (Inr r)
  then have "r \<in> set (level_progress d)" using objects_get_filter_mem by fastforce
  with Inr assms show ?thesis by (auto simp: get_or_create_progress_def)
next
  case (Inl e)
  with assms show ?thesis
    by (cases "e = DoesNotExist")
       (auto simp: get_or_create_progress_def new_progress_row_def Let_def)
qed

lemma get_or_create_progress_preserved:
  assumes "distinct (map lp_id (level_progress d))"
  shows "progress_preserved d (snd (get_or_create_progress usr lvl d))"
proof -
  obtain res d' where r: "get_or_create_progress usr lvl d = (res, d')"
    by (cases "get_or_create_progress usr lvl d")
  from get_or_create_progress_result [OF r] show ?thesis
    unfolding r using progress_preserved_refl [OF assms] progress_preserved_append [OF assms]
    by auto
qed

lemma unlock_next_level_preserved:
  assumes "distinct (map lp_id (level_progress d))"
  shows "progress_preserved d (snd (unlock_next_level self d))"
proof -
  have "snd (unlock_next_level self d) = d \<or>
        (\<exists>usr lvl. snd (unlock_next_level self d) = snd (get_or_create_progress usr lvl d))"
    by (auto simp: unlock_next_level_def Let_def split: sum.splits prod.splits)
       (metis snd_conv)+
  then show ?thesis
    using progress_preserved_refl [OF assms] get_or_create_progress_preserved [OF assms]
    by auto
qed

lemma check_completion_preserved:
  assumes "distinct (map lp_id (level_progress d))" and "self \<in> set (level_progress d)"
  shows "progress_preserved d (snd (check_completion self now d))"
proof (cases "level_of d self")
  case (Inl e)
  then show ?thesis
    using progress_preserved_refl [OF assms(1)] by (simp add: check_completion_def)
next
  case (Inr lvl)
  show ?thesis
  proof (cases "puzzles_required lvl \<le> puzzles_completed self \<and> \<not> is_completed self")
    case False
    then show ?thesis
      using Inr progress_preserved_refl [OF assms(1)] by (auto simp: check_completion_def)
  next
    case True
    define self' where "self' = self\<lparr>is_completed := True, completed_at := Some now\<rparr>"
    define d1 where "d1 = d\<lparr>level_progress := save_row lp_id self' (level_progress d)\<rparr>"
    have "meets_requirement d self'"
      using Inr True by (simp add: meets_requirement_def level_of_def self'_def)
    then have "row_advances d self self'"
      by (simp add: row_advances_def self'_def)
    with assms have p1: "progress_preserved d d1"
      unfolding d1_def by (rule progress_preserved_save)
    then have "distinct (map lp_id (level_progress d1))" by (rule progress_preserved_distinct)
    then have p2: "progress_preserved d1 (snd (unlock_next_level self' d1))"
      by (rule unlock_next_level_preserved)
    have "snd (check_completion self now d) = snd (unlock_next_level self' d1)"
      unfolding self'_def d1_def using Inr True
      by (simp add: check_completion_def Let_def split: prod.splits sum.splits)
    with progress_preserved_trans [OF p1 p2] show ?thesis by simp
  qed
qed

lemma complete_attempt_preserved:
  assumes "distinct (map lp_id (level_progress d))"
  shows "progress_preserved d (snd (complete_attempt self score now d))"
proof (cases "upa_is_completed self")
  case True
  then show ?thesis
    using progress_preserved_refl [OF assms] by (simp add: complete_attempt_def)
next
  case False
  define self' where "self' = self\<lparr>upa_is_completed := True, score_earned := score,
                          upa_completed_at := Some now\<rparr>"
  define d1 where "d1 = d\<lparr>puzzle_attempts := save_row upa_id self' (puzzle_attempts d)\<rparr>"
  have p1: "progress_preserved d d1"
    using assms by (rule progress_preserved_other) (simp_all add: d1_def)
  have dist1: "distinct (map lp_id (level_progress d1))" using assms by (simp add: d1_def)
  have ca: "complete_attempt self score now d =
     (case user_of_attempt d1 self' of
              Inl e \<Rightarrow> (Inl e, d1)
            | Inr usr \<Rightarrow>
                (case level_of_attempt d1 self' of
                   Inl e \<Rightarrow> (Inl e, d1)
                 | Inr lvl \<Rightarrow>
                     (case get_or_create_progress (user_id usr) lvl d1 of
                        (Inl e, d2) \<Rightarrow> (Inl e, d2)
                      | (Inr (level_progress0, created), d2) \<Rightarrow>
                          (let level_progress1 = level_progress0
                                 \<lparr>puzzles_completed := puzzles_completed level_progress0 + 1,
                                  total_score := total_score level_progress0 + score\<rparr>;
                               d3 = d2\<lparr>level_progress :=
                                        save_row lp_id level_progress1 (level_progress d2)\<rparr>
                           in case check_completion level_progress1 now d3 of
                                (Inl e, d4) \<Rightarrow> (Inl e, d4)
                              | (Inr lp, d4) \<Rightarrow>
                                  (let usr' = usr\<lparr>user_total_score :=
                                                     user_total_score usr + score\<rparr>
                                   in (Inr self',
                                       d4\<lparr>users := save_row user_id usr' (users d4)\<rparr>))))))"
    unfolding self'_def d1_def using False by (simp add: complete_attempt_def Let_def)
  show ?thesis
  proof (cases "user_of_attempt d1 self'")
    case (Inl e)
    with ca p1 show ?thesis by simp
  next
    case usr: (Inr usr)
    show ?thesis
    proof (cases "level_of_attempt d1 self'")
      case (Inl e)
      with ca usr p1 show ?thesis by simp
    next
      case lvl: (Inr lvl)
      obtain res d2 where g: "get_or_create_progress (user_id usr) lvl d1 = (res, d2)"
        by (cases "get_or_create_progress (user_id usr) lvl d1")
      have p2: "progress_preserved d1 d2"
        using get_or_create_progress_preserved [OF dist1, of "user_id usr" lvl] g by simp
      have dist2: "distinct (map lp_id (level_progress d2))"
        using p2 by (rule progress_preserved_distinct)
      show ?thesis
      proof (cases res)
        case (Inl e)
        with ca usr lvl g have "snd (complete_attempt self score now d) = d2" by simp
        with progress_preserved_trans [OF p1 p2] show ?thesis by simp
      next
        case (Inr rc)
        obtain lp0 created where rc: "rc = (lp0, created)" by (cases rc)
        have lp0: "lp0 \<in> set (level_progress d2)"
          using get_or_create_progress_result [OF g] Inr rc by auto
        define lp1 where "lp1 = lp0\<lparr>puzzles_completed := puzzles_completed lp0 + 1,
                                  total_score := total_score lp0 + score\<rparr>"
        define d3 where "d3 = d2\<lparr>level_progress := save_row lp_id lp1 (level_progress d2)\<rparr>"
        have adv: "row_advances d2 lp0 lp1" by (simp add: row_advances_def lp1_def)
        have p3: "progress_preserved d2 d3"
          unfolding d3_def using dist2 lp0 adv by (rule progress_preserved_save)
        have dist3: "distinct (map lp_id (level_progress d3))"
          using p3 by (rule progress_preserved_distinct)
        have "lp_id lp1 = lp_id lp0" by (simp add: lp1_def)
        from set_save_row [OF dist2 lp0 this]
        have lp1: "lp1 \<in> set (level_progress d3)" by (simp add: d3_def)
        obtain res4 d4 where c: "check_completion lp1 now d3 = (res4, d4)"
          by (cases "check_completion lp1 now d3")
        have p4: "progress_preserved d3 d4"
          using check_completion_preserved [OF dist3 lp1, of now] c by simp
        have dist4: "distinct (map lp_id (level_progress d4))"
          using p4 by (rule progress_preserved_distinct)
        have p04: "progress_preserved d d4"
          using p1 p2 p3 p4 by (blast intro: progress_preserved_trans)
        have "snd (complete_attempt self score now d) = d4 \<or>
              (\<exists>us. snd (complete_attempt self score now d) = d4\<lparr>users := us\<rparr>)"
          using ca usr lvl g Inr rc c unfolding lp1_def d3_def
          by (cases res4) (auto simp: Let_def)
        moreover have "progress_preserved d4 (d4\<lparr>users := us\<rparr>)" for us
          using dist4 by (rule progress_preserved_other) simp_all
        ultimately show ?thesis
          using p04 by (auto intro: progress_preserved_trans)
      qed
    qed
  qed
qed

subsection \<open>The operations of games/level\_models.py\<close>

lemma lm_unlock_next_level_eq: "lm_unlock_next_level self d = unlock_next_level self d"
  by (simp add: lm_unlock_next_level_def unlock_next_level_def)

lemma lm_check_completion_bound:
  "''timezone'' \<in> set ns \<Longrightarrow> lm_check_completion ns self now d = check_completion self now d"
  unfolding lm_check_completion_def check_completion_def module_getattr_def
    lm_unlock_next_level_eq
  by (simp split: sum.splits)

lemma lm_check_completion_unbound:
  assumes "''timezone'' \<notin> set ns"
  shows "lm_check_completion ns self now d =
           (case level_of d self of
              Inl e \<Rightarrow> (Inl e, d)
            | Inr lvl \<Rightarrow>
                if puzzles_required lvl \<le> puzzles_completed self \<and> \<not> is_completed self
                then (Inl AttributeError, d) else (Inr self, d))"
  using assms unfolding lm_check_completion_def module_getattr_def
  by (simp split: sum.splits)

lemma lm_complete_attempt_bound:
  "''timezone'' \<in> set ns \<Longrightarrow>
   lm_complete_attempt ns self score now d = complete_attempt self score now d"
proof -
  assume tz: "''timezone'' \<in> set ns"
  have eq: "lm_check_completion ns = check_completion"
    using lm_check_completion_bound [OF tz] by (intro ext) simp
  show ?thesis
    unfolding lm_complete_attempt_def complete_attempt_def module_getattr_def eq
    using tz by simp
qed

lemma lm_complete_attempt_unbound:
  assumes "''timezone'' \<notin> set ns"
  shows "lm_complete_attempt ns self score now d =
           (if upa_is_completed self then (Inr self, d) else (Inl AttributeError, d))"
  using assms by (simp add: lm_complete_attempt_def module_getattr_def)

lemma lm_check_completion_preserved:
  assumes "distinct (map lp_id (level_progress d))" and "self \<in> set (level_progress d)"
  shows "progress_preserved d (snd (lm_check_completion ns self now d))"
proof (cases "''timezone'' \<in> set ns")
  case True
  then show ?thesis
    using check_completion_preserved [OF assms] by (simp add: lm_check_completion_bound)
next
  case False
  then have "snd (lm_check_completion ns self now d) = d"
    by (simp add: lm_check_completion_unbound split: sum.splits)
  then show ?thesis using progress_preserved_refl [OF assms(1)] by simp
qed

lemma lm_complete_attempt_preserved:
  assumes "distinct (map lp_id (level_progress d))"
  shows "progress_preserved d (snd (lm_complete_attempt ns self score now d))"
proof (cases "''timezone'' \<in> set ns")
  case True
  then show ?thesis
    using complete_attempt_preserved [OF assms] by (simp add: lm_complete_attempt_bound)
next
  case False
  then have "snd (lm_complete_attempt ns self score now d) = d"
    by (simp add: lm_complete_attempt_unbound)
  then show ?thesis using progress_preserved_refl [OF assms(1)] by simp
qed

subsection \<open>Runs\<close>

lemma exec_call_preserved:
  assumes "distinct (map lp_id (level_progress d))"
  shows "progress_preserved d (exec_call ns c d)"
proof -
  note refl = progress_preserved_refl [OF assms]
  obtain m call where c: "c = (m, call)" by (cases c)
  show ?thesis
  proof (cases call)
    case (CompleteAttempt pk score now)
    show ?thesis
    proof (cases "objects_get (filter (\<lambda>a. upa_id a = pk) (puzzle_attempts d))")
      case (Inl e)
      with c CompleteAttempt refl show ?thesis by simp
    next
      case (Inr self)
      with c CompleteAttempt show ?thesis
        using complete_attempt_preserved [OF assms] lm_complete_attempt_preserved [OF assms]
        by (cases m) simp_all
    qed
  next
    case (CheckCompletion pk now)
    show ?thesis
    proof (cases "objects_get (filter (\<lambda>r. lp_id r = pk) (level_progress d))")
      case (Inl e)
      with c CheckCompletion refl show ?thesis by simp
    next
      case (Inr self)
      then have "self \<in> set (level_progress d)" using objects_get_filter_mem by fastforce
      with Inr c CheckCompletion show ?thesis
        using check_completion_preserved [OF assms] lm_check_completion_preserved [OF assms]
        by (cases m) simp_all
    qed
  next
    case (UnlockNextLevel pk)
    show ?thesis
    proof (cases "objects_get (filter (\<lambda>r. lp_id r = pk) (level_progress d))")
      case (Inl e)
      with c UnlockNextLevel refl show ?thesis by simp
    next
      case (Inr self)
      with c UnlockNextLevel show ?thesis
        using unlock_next_level_preserved [OF assms]
        by (cases m) (simp_all add: lm_unlock_next_level_eq)
    qed
  qed
qed

lemma scenario_C_first:
  "run_calls ns [(Models, CompleteAttempt 1 50 100)] scenario_db = half_way_db"
  by code_simp

lemma scenario_C_second:
  "level_progress (run_calls ns [(Models, CompleteAttempt 2 30 200)] half_way_db) =
     [\<lparr>lp_id = 1, lp_user = 7, lp_level = 1, puzzles_completed = 2,
       is_completed = True, completed_at = Some 200, total_score = 80\<rparr>,
      \<lparr>lp_id = 2, lp_user = 7, lp_level = 2, puzzles_completed = 0,
       is_completed = False, completed_at = None, total_score = 0\<rparr>]"
  by code_simp

lemma scenario_D_replay:
  "run_calls ns [(Models, CompleteAttempt 2 30 200), (Models, CompleteAttempt 2 30 300)]
     half_way_db
   = run_calls ns [(Models, CompleteAttempt 2 30 200)] half_way_db"
  by code_simp

text \<open>
  Claim C7. Start from any database whose progress rows have distinct primary keys and run
  any sequence of calls of \<open>complete_attempt\<close>, \<open>check_completion\<close> and
  \<open>unlock_next_level\<close>, of either module, on stored rows. Every progress row of the start
  is a row of the end, with the same key, user and level, a count \<open>puzzles_completed\<close> that
  has not decreased, and \<open>is_completed\<close> still true if it was; if it became completed, its
  count is at least the \<open>puzzles_required\<close> of its level. A row created during the run is
  completed only if its count is at least the \<open>puzzles_required\<close> of its level.
\<close>

theorem progress_never_regresses:
  assumes "distinct (map lp_id (level_progress d))"
  shows "(\<forall>r \<in> set (level_progress d). \<exists>r' \<in> set (level_progress (run_calls ns cs d)).
            lp_id r' = lp_id r \<and> lp_user r' = lp_user r \<and> lp_level r' = lp_level r
            \<and> puzzles_completed r \<le> puzzles_completed r'
            \<and> (is_completed r \<longrightarrow> is_completed r')
            \<and> (\<not> is_completed r \<and> is_completed r' \<longrightarrow> meets_requirement d r'))
         \<and> (\<forall>r' \<in> set (level_progress (run_calls ns cs d)).
              lp_id r' \<notin> lp_id ` set (level_progress d) \<longrightarrow> is_completed r' \<longrightarrow>
              meets_requirement d r')
         \<and> distinct (map lp_id (level_progress (run_calls ns cs d)))"
proof -
  have "progress_preserved d (run_calls ns cs d)"
    using assms
  proof (induction cs arbitrary: d)
    case Nil
    then show ?case by (simp add: progress_preserved_refl)
  next
    case (Cons c cs)
    have first: "progress_preserved d (exec_call ns c d)"
      using Cons.prems by (rule exec_call_preserved)
    then have "distinct (map lp_id (level_progress (exec_call ns c d)))"
      by (rule progress_preserved_distinct)
    then have "progress_preserved (exec_call ns c d) (run_calls ns cs (exec_call ns c d))"
      by (rule Cons.IH)
    with first have "progress_preserved d (run_calls ns cs (exec_call ns c d))"
      by (rule progress_preserved_trans)
    then show ?case by simp
  qed
  then show ?thesis
    unfolding progress_preserved_def row_advances_def by simp
qed

lemma mixed_run:
  "level_progress
     (run_calls level_models_names
        [(LevelModels, CompleteAttempt 2 30 150), (Models, CompleteAttempt 2 30 200),
         (Models, CompleteAttempt 2 30 250), (LevelModels, UnlockNextLevel 1),
         (Models, CheckCompletion 1 300)] half_way_db) =
     [\<lparr>lp_id = 1, lp_user = 7, lp_level = 1, puzzles_completed = 2,
       is_completed = True, completed_at = Some 200, total_score = 80\<rparr>,
      \<lparr>lp_id = 2, lp_user = 7, lp_level = 2, puzzles_completed = 0,
       is_completed = False, completed_at = None, total_score = 0\<rparr>]"
  by code_simp

text \<open>
  Witness for C7: from the state after the first puzzle, a run that mixes both modules,
  completes the second puzzle, and replays it. The row of level 1 ends completed with a
  count of 2, which meets the requirement; the replay does not count a third puzzle.
\<close>

theorem progress_never_regresses_witness:
  "distinct (map lp_id (level_progress half_way_db))
   \<and> level_progress
     (run_calls level_models_names
        [(LevelModels, CompleteAttempt 2 30 150), (Models, CompleteAttempt 2 30 200),
         (Models, CompleteAttempt 2 30 250), (LevelModels, UnlockNextLevel 1),
         (Models, CheckCompletion 1 300)] half_way_db) =
     [\<lparr>lp_id = 1, lp_user = 7, lp_level = 1, puzzles_completed = 2,
       is_completed = True, completed_at = Some 200, total_score = 80\<rparr>,
      \<lparr>lp_id = 2, lp_user = 7, lp_level = 2, puzzles_completed = 0,
       is_completed = False, completed_at = None, total_score = 0\<rparr>]
   \<and> meets_requirement half_way_db
        \<lparr>lp_id = 1, lp_user = 7, lp_level = 1, puzzles_completed = 2,
         is_completed = True, completed_at = Some 200, total_score = 80\<rparr>
   \<and> distinct (map lp_id (level_progress
        (run_calls level_models_names
          [(LevelModels, CompleteAttempt 2 30 150), (Models, CompleteAttempt 2 30 200),
           (Models, CompleteAttempt 2 30 250), (LevelModels, UnlockNextLevel 1),
           (Models, CheckCompletion 1 300)] half_way_db)))"
proof -
  have h: "distinct (map lp_id (level_progress half_way_db))" by code_simp
  have m: "meets_requirement half_way_db
        \<lparr>lp_id = 1, lp_user = 7, lp_level = 1, puzzles_completed = 2,
         is_completed = True, completed_at = Some 200, total_score = 80\<rparr>"
    by code_simp
  from progress_never_regresses [OF h, of level_models_names
      "[(LevelModels, CompleteAttempt 2 30 150), (Models, CompleteAttempt 2 30 200),
         (Models, CompleteAttempt 2 30 250), (LevelModels, UnlockNextLevel 1),
         (Models, CheckCompletion 1 300)]"]
  have d: "distinct (map lp_id (level_progress
        (run_calls level_models_names
          [(LevelModels, CompleteAttempt 2 30 150), (Models, CompleteAttempt 2 30 200),
           (Models, CompleteAttempt 2 30 250), (LevelModels, UnlockNextLevel 1),
           (Models, CheckCompletion 1 300)] half_way_db)))"
    by blast
  from h mixed_run m d show ?thesis by blast
qed


section \<open>The clock lookup of games/level\_models.py\<close>

lemma get_or_create_progress_no_attr:
  "get_or_create_progress usr lvl d \<noteq> (Inl AttributeError, d')"
  by (auto simp: get_or_create_progress_def Let_def objects_get_not_attr
      split: sum.splits if_splits)

lemma unlock_next_level_no_attr: "unlock_next_level self d \<noteq> (Inl AttributeError, d')"
proof
  assume a: "unlock_next_level self d = (Inl AttributeError, d')"
  show False
  proof (cases "level_of d self")
    case (Inl e)
    with a have "level_of d self = Inl AttributeError" by (simp add: unlock_next_level_def)
    then show False by (simp add: level_of_def objects_get_not_attr)
  next
    case (Inr lvl)
    show False
    proof (cases "objects_get (filter (\<lambda>l. level_number l = level_number lvl + 1
                                              \<and> level_is_active l) (levels d))")
      case (Inl e)
      with a Inr have "e = AttributeError"
        by (simp add: unlock_next_level_def Let_def split: if_splits)
      with Inl show False by (simp add: objects_get_not_attr)
    next
      case nxt: (Inr nxt)
      with a Inr show False
        using get_or_create_progress_no_attr [of "lp_user self" "level_id nxt" d d']
        by (auto simp: unlock_next_level_def Let_def split: prod.splits sum.splits)
    qed
  qed
qed

lemma check_completion_no_attr: "check_completion self now d \<noteq> (Inl AttributeError, d')"
proof
  assume a: "check_completion self now d = (Inl AttributeError, d')"
  show False
  proof (cases "level_of d self")
    case (Inl e)
    with a have "level_of d self = Inl AttributeError" by (simp add: check_completion_def)
    then show False by (simp add: level_of_def objects_get_not_attr)
  next
    case (Inr lvl)
    with a show False
      using unlock_next_level_no_attr
      by (auto simp: check_completion_def Let_def split: if_splits prod.splits sum.splits)
  qed
qed

lemma level_of_attempt_no_attr: "level_of_attempt d self \<noteq> Inl AttributeError"
  by (auto simp: level_of_attempt_def objects_get_not_attr split: sum.splits)

lemma complete_attempt_no_attr: "complete_attempt self score now d \<noteq> (Inl AttributeError, d')"
proof
  assume a: "complete_attempt self score now d = (Inl AttributeError, d')"
  then have nc: "\<not> upa_is_completed self" by (auto simp: complete_attempt_def)
  define self' where "self' = self\<lparr>upa_is_completed := True, score_earned := score,
                          upa_completed_at := Some now\<rparr>"
  define d1 where "d1 = d\<lparr>puzzle_attempts := save_row upa_id self' (puzzle_attempts d)\<rparr>"
  have u: "user_of_attempt d1 self' \<noteq> Inl AttributeError"
    by (simp add: user_of_attempt_def objects_get_not_attr)
  note l = level_of_attempt_no_attr [of d1 self']
  from a nc u l show False
    unfolding complete_attempt_def self'_def [symmetric] Let_def d1_def [symmetric]
    using get_or_create_progress_no_attr check_completion_no_attr
    by (auto split: sum.splits prod.splits)
qed

lemma get_or_create_progress_rows:
  "set (level_progress d) \<subseteq> set (level_progress (snd (get_or_create_progress usr lvl d)))"
proof -
  obtain res d' where r: "get_or_create_progress usr lvl d = (res, d')"
    by (cases "get_or_create_progress usr lvl d")
  from get_or_create_progress_result [OF r] show ?thesis unfolding r by auto
qed

lemma unlock_next_level_rows:
  "set (level_progress d) \<subseteq> set (level_progress (snd (unlock_next_level self d)))"
proof -
  have "snd (unlock_next_level self d) = d \<or>
        (\<exists>usr lvl. snd (unlock_next_level self d) = snd (get_or_create_progress usr lvl d))"
    by (auto simp: unlock_next_level_def Let_def split: sum.splits prod.splits)
       (metis snd_conv)+
  then show ?thesis
  proof (elim disjE exE)
    fix usr lvl
    assume "snd (unlock_next_level self d) = snd (get_or_create_progress usr lvl d)"
    then show ?thesis using get_or_create_progress_rows [of d usr lvl] by simp
  qed simp
qed

lemma check_completion_completes:
  assumes "level_of d self = Inr lvl"
    and "puzzles_required lvl \<le> puzzles_completed self" and "\<not> is_completed self"
  shows "self\<lparr>is_completed := True, completed_at := Some now\<rparr>
           \<in> set (level_progress (snd (check_completion self now d)))"
proof -
  define self' where "self' = self\<lparr>is_completed := True, completed_at := Some now\<rparr>"
  define d1 where "d1 = d\<lparr>level_progress := save_row lp_id self' (level_progress d)\<rparr>"
  have "snd (check_completion self now d) = snd (unlock_next_level self' d1)"
    unfolding self'_def d1_def using assms
    by (simp add: check_completion_def Let_def split: prod.splits sum.splits)
  moreover have "self' \<in> set (level_progress d1)" by (simp add: d1_def save_row_mem)
  ultimately show ?thesis
    unfolding self'_def [symmetric] using unlock_next_level_rows [of d1 self'] by auto
qed

text \<open>
  Claim C10. When \<^verbatim>\<open>django.db.models\<close> binds no name \<open>timezone\<close>: every call of
  \<open>check_completion\<close> of games/level\_models.py whose guard holds, and every call of its
  \<open>complete_attempt\<close> on an attempt that is not completed, raises \<open>AttributeError\<close> and
  leaves the database as it was. The methods of games/models.py never raise
  \<open>AttributeError\<close>; its \<open>check_completion\<close> stores the completed row when the guard holds.
\<close>

theorem level_models_completion_raises:
  assumes "''timezone'' \<notin> set ns"
  shows "(\<forall>lvl. level_of d self = Inr lvl \<and> puzzles_required lvl \<le> puzzles_completed self
              \<and> \<not> is_completed self \<longrightarrow>
            lm_check_completion ns self now d = (Inl AttributeError, d)
            \<and> fst (check_completion self now d) \<noteq> Inl AttributeError
            \<and> self\<lparr>is_completed := True, completed_at := Some now\<rparr>
                 \<in> set (level_progress (snd (check_completion self now d))))
         \<and> (\<not> upa_is_completed attempt \<longrightarrow>
              lm_complete_attempt ns attempt score now d = (Inl AttributeError, d)
              \<and> fst (complete_attempt attempt score now d) \<noteq> Inl AttributeError)"
proof (intro conjI allI impI)
  fix lvl
  assume g: "level_of d self = Inr lvl \<and> puzzles_required lvl \<le> puzzles_completed self
              \<and> \<not> is_completed self"
  then show "lm_check_completion ns self now d = (Inl AttributeError, d)"
    using assms by (simp add: lm_check_completion_unbound)
  show "fst (check_completion self now d) \<noteq> Inl AttributeError"
    using check_completion_no_attr [of self now d] by (metis prod.collapse)
  show "self\<lparr>is_completed := True, completed_at := Some now\<rparr>
                 \<in> set (level_progress (snd (check_completion self now d)))"
    using g check_completion_completes by blast
next
  assume "\<not> upa_is_completed attempt"
  then show "lm_complete_attempt ns attempt score now d = (Inl AttributeError, d)"
    using assms by (simp add: lm_complete_attempt_unbound)
  show "fst (complete_attempt attempt score now d) \<noteq> Inl AttributeError"
    using complete_attempt_no_attr [of attempt score now d] by (metis prod.collapse)
qed

text \<open>
  Witness for C10: the namespace holds the names that games/level\_models.py reads from
  \<^verbatim>\<open>models\<close>, and \<open>timezone\<close> is not among them.
\<close>

theorem level_models_completion_raises_witness:
  "''timezone'' \<notin> set level_models_names
   \<and> level_of ready_db progress_ready = Inr level1
   \<and> puzzles_required level1 \<le> puzzles_completed progress_ready
   \<and> \<not> is_completed progress_ready
   \<and> lm_check_completion level_models_names progress_ready 100 ready_db
       = (Inl AttributeError, ready_db)
   \<and> progress_ready\<lparr>is_completed := True, completed_at := Some 100\<rparr>
       \<in> set (level_progress (snd (check_completion progress_ready 100 ready_db)))
   \<and> \<not> upa_is_completed first_attempt
   \<and> lm_complete_attempt level_models_names first_attempt 50 100 scenario_db
       = (Inl AttributeError, scenario_db)
   \<and> fst (complete_attempt first_attempt 50 100 scenario_db) \<noteq> Inl AttributeError"
proof -
  have h: "''timezone'' \<notin> set level_models_names" by code_simp
  have g: "level_of ready_db progress_ready = Inr level1"
    "puzzles_required level1 \<le> puzzles_completed progress_ready"
    "\<not> is_completed progress_ready" by code_simp+
  have n: "\<not> upa_is_completed first_attempt" by code_simp
  from level_models_completion_raises [OF h, of ready_db progress_ready 100 first_attempt 50]
    g n
  have 1: "lm_check_completion level_models_names progress_ready 100 ready_db
       = (Inl AttributeError, ready_db)"
    and 2: "progress_ready\<lparr>is_completed := True, completed_at := Some 100\<rparr>
       \<in> set (level_progress (snd (check_completion progress_ready 100 ready_db)))"
    by blast+
  from level_models_completion_raises [OF h, of scenario_db progress_ready 100 first_attempt 50]
    n
  have 3: "lm_complete_attempt level_models_names first_attempt 50 100 scenario_db
       = (Inl AttributeError, scenario_db)"
    and 4: "fst (complete_attempt first_attempt 50 100 scenario_db) \<noteq> Inl AttributeError"
    by blast+
  from h g n 1 2 3 4 show ?thesis by blast
qed


section \<open>Finalizing an attempt twice\<close>

lemma get_or_create_attempt_result:
  assumes "get_or_create_attempt usr game uuid now d = (res, d')"
  shows "(d' = d \<and> (\<exists>e. res = Inl e)) \<or>
         (d' = d \<and> (\<exists>a \<in> set (shape_attempts d). att_status a = IN_PROGRESS
                        \<and> att_user a = usr \<and> att_shape_game a = sg_id game
                        \<and> res = Inr (a, False))) \<or>
         ((\<forall>a \<in> set (shape_attempts d). \<not> (att_user a = usr \<and> att_shape_game a = sg_id game
                                               \<and> att_status a = IN_PROGRESS))
          \<and> (\<exists>a. att_id a = uuid \<and> att_status a = IN_PROGRESS \<and> start_time a = now
                 \<and> d' = d\<lparr>shape_attempts := shape_attempts d @ [a]\<rparr>
                 \<and> res = Inr (a, True)))"
proof (cases "objects_get (filter (\<lambda>a. att_user a = usr \<and> att_shape_game a = sg_id game
                                     \<and> att_status a = IN_PROGRESS) (shape_attempts d))")
  case (Inr a)
  then have "a \<in> set (shape_attempts d) \<and> att_user a = usr \<and> att_shape_game a = sg_id game
             \<and> att_status a = IN_PROGRESS"
    using objects_get_filter_mem by fastforce
  with Inr assms show ?thesis by (auto simp: get_or_create_attempt_def)
next
  case (Inl e)
  show ?thesis
  proof (cases "e = DoesNotExist")
    case True
    with Inl have "filter (\<lambda>a. att_user a = usr \<and> att_shape_game a = sg_id game
                                     \<and> att_status a = IN_PROGRESS) (shape_attempts d) = []"
      by (simp add: objects_get_DoesNotExist_iff)
    then have none: "\<forall>a \<in> set (shape_attempts d). \<not> (att_user a = usr
        \<and> att_shape_game a = sg_id game \<and> att_status a = IN_PROGRESS)"
      by (simp add: filter_empty_conv)
    from Inl True assms none show ?thesis
      by (auto simp: get_or_create_attempt_def Let_def)
  next
    case False
    with Inl assms show ?thesis by (auto simp: get_or_create_attempt_def)
  qed
qed

lemma get_or_create_attempt_created:
  assumes "\<forall>a \<in> set (shape_attempts d). \<not> (att_user a = usr \<and> att_shape_game a = sg_id game
                                               \<and> att_status a = IN_PROGRESS)"
  shows "get_or_create_attempt usr game uuid now d =
           (Inr (new_attempt usr game uuid now, True),
            d\<lparr>shape_attempts := shape_attempts d @ [new_attempt usr game uuid now]\<rparr>)"
proof -
  have "filter (\<lambda>a. att_user a = usr \<and> att_shape_game a = sg_id game
                   \<and> att_status a = IN_PROGRESS) (shape_attempts d) = []"
    using assms by (simp add: filter_empty_conv)
  then show ?thesis by (simp add: get_or_create_attempt_def new_attempt_def Let_def)
qed

lemma finalized_id: "att_id (finalized game data now a) = att_id a"
  by (simp add: finalized_def Let_def)

lemma api_save_unfold:
  "api_save_shape_game_state usr game_id data uuid now d =
     (case get_game_or_404 game_id d of
        Inl e \<Rightarrow> (Failure e, d)
      | Inr game \<Rightarrow>
          (case get_or_create_attempt usr game uuid now d of
             (Inl e, d1) \<Rightarrow> (Failure e, d1)
           | (Inr (attempt, created), d1) \<Rightarrow>
               (Success (att_id attempt) (att_score (finalized game data now attempt))
                  (att_accuracy (finalized game data now attempt)),
                d1\<lparr>shape_attempts :=
                      save_row att_id (finalized game data now attempt) (shape_attempts d1)\<rparr>)))"
  unfolding api_save_shape_game_state_def finalized_def Let_def
  by (simp split: sum.splits prod.splits)

lemma api_save_keeps_progress:
  "level_progress (snd (api_save_shape_game_state usr game_id data uuid now d)) = level_progress d"
proof (cases "get_game_or_404 game_id d")
  case (Inl e)
  then show ?thesis by (simp add: api_save_unfold)
next
  case (Inr game)
  obtain res d1 where g: "get_or_create_attempt usr game uuid now d = (res, d1)"
    by (cases "get_or_create_attempt usr game uuid now d")
  from get_or_create_attempt_result [OF g] have "level_progress d1 = level_progress d" by auto
  then show ?thesis using Inr g by (cases res) (auto simp: api_save_unfold)
qed

lemma api_save_keeps_finished:
  assumes "distinct (map att_id (shape_attempts d))"
    and "uuid \<notin> set (map att_id (shape_attempts d))"
    and "c \<in> set (shape_attempts d)" and "att_status c \<noteq> IN_PROGRESS"
  shows "c \<in> set (shape_attempts (snd (api_save_shape_game_state usr game_id data uuid now d)))"
proof (cases "get_game_or_404 game_id d")
  case (Inl e)
  then show ?thesis using assms(3) by (simp add: api_save_unfold)
next
  case (Inr game)
  obtain res d1 where g: "get_or_create_attempt usr game uuid now d = (res, d1)"
    by (cases "get_or_create_attempt usr game uuid now d")
  from get_or_create_attempt_result [OF g]
  consider (failed) e where "d1 = d" "res = Inl e"
    | (found) a where "d1 = d" "a \<in> set (shape_attempts d)" "att_status a = IN_PROGRESS"
        "res = Inr (a, False)"
    | (created) a where "att_id a = uuid" "d1 = d\<lparr>shape_attempts := shape_attempts d @ [a]\<rparr>"
        "res = Inr (a, True)"
    by blast
  then show ?thesis
  proof cases
    case failed
    then show ?thesis using Inr g assms(3) by (simp add: api_save_unfold)
  next
    case found
    have "c \<noteq> a" using found(3) assms(4) by auto
    then have "att_id c \<noteq> att_id a"
      using assms(1,3) found(2) by (meson distinct_map inj_onD)
    then have "c \<in> set (save_row att_id (finalized game data now a) (shape_attempts d))"
      using assms(3) by (intro save_row_keeps_others) (simp_all add: finalized_id)
    then show ?thesis using Inr g found by (simp add: api_save_unfold)
  next
    case created
    have "att_id c \<noteq> uuid" using assms(2,3) by auto
    then have "c \<in> set (save_row att_id (finalized game data now a) (shape_attempts d @ [a]))"
      using assms(3) created(1) by (intro save_row_keeps_others) (simp_all add: finalized_id)
    then show ?thesis using Inr g created by (simp add: api_save_unfold)
  qed
qed

lemma api_save_new_attempt:
  assumes "uuid \<notin> set (map att_id (shape_attempts d))"
    and "get_game_or_404 game_id d = Inr game"
    and "\<forall>a \<in> set (shape_attempts d). \<not> (att_user a = usr \<and> att_shape_game a = sg_id game
                                               \<and> att_status a = IN_PROGRESS)"
    and "req_status data = Some ''completed''"
  shows "fst (api_save_shape_game_state usr game_id data uuid now d) =
           Success uuid
             (final_score (validate_shape_placement game
                (case req_current_state data of None \<Rightarrow> [] | Some st \<Rightarrow> st)))
             (accuracy (validate_shape_placement game
                (case req_current_state data of None \<Rightarrow> [] | Some st \<Rightarrow> st)))
         \<and> length (shape_attempts (snd (api_save_shape_game_state usr game_id data uuid now d)))
             = Suc (length (shape_attempts d))"
proof -
  define a where "a = new_attempt usr game uuid now"
  have g: "get_or_create_attempt usr game uuid now d =
             (Inr (a, True), d\<lparr>shape_attempts := shape_attempts d @ [a]\<rparr>)"
    unfolding a_def using assms(3) by (rule get_or_create_attempt_created)
  have a: "att_id a = uuid" by (simp add: a_def new_attempt_def)
  have s: "save_row att_id (finalized game data now a) (shape_attempts d @ [a])
           = shape_attempts d @ [finalized game data now a]"
    using assms(1) a by (intro save_row_last) (simp_all add: finalized_id)
  have "att_score (finalized game data now a) =
          final_score (validate_shape_placement game
             (case req_current_state data of None \<Rightarrow> [] | Some st \<Rightarrow> st))"
    and "att_accuracy (finalized game data now a) =
          accuracy (validate_shape_placement game
             (case req_current_state data of None \<Rightarrow> [] | Some st \<Rightarrow> st))"
    using assms(4) by (simp_all add: finalized_def Let_def)
  then show ?thesis using assms(2) g a s by (simp add: api_save_unfold)
qed

text \<open>
  Claim C1, as stated, fails. The save handler looks for an attempt of the user and game
  that is in progress; after the first finalize request there is none, so a second request
  creates a new attempt and scores the placements it carries. With other placements it
  returns another score and accuracy than the stored ones; with the same placements it
  returns the same numbers, for a second attempt that it scored again.
\<close>

theorem second_finalize_counterexample:
  "api_save_shape_game_state 7 1 finalize_right 101 1000 game_db
     = (Success 101 10 100, finished_db)
   \<and> api_save_shape_game_state 7 1 finalize_wrong 102 2000 finished_db
     = (Success 102 0 0,
        finished_db\<lparr>shape_attempts :=
          [finished_attempt,
           \<lparr>att_id = 102, att_user = 7, att_shape_game = 1,
            current_state = [(''1,1'', PObject [(''shapeId'', PInt 2)])],
            start_time = 2000, end_time = Some 2000, att_status = COMPLETED, att_score = 0,
            att_accuracy = 0, correct_placements = 0, incorrect_placements = 1,
            time_taken_seconds = 0\<rparr>]\<rparr>)
   \<and> api_save_shape_game_state 7 1 finalize_right 102 2000 finished_db
     = (Success 102 10 100,
        finished_db\<lparr>shape_attempts :=
          [finished_attempt, finished_attempt\<lparr>att_id := 102, start_time := 2000,
                                               end_time := Some 2000\<rparr>]\<rparr>)"
  by code_simp

text \<open>
  Claim C1, amended. \<open>complete_attempt\<close>, of either module, changes nothing on an attempt
  that is already completed, so \<open>puzzles_completed\<close> is not changed a second time. The save
  handler never changes a progress row, and leaves every stored attempt that is not in
  progress as it is (attempt keys distinct, the new UUID unused). It is not a no-op on a
  second finalize request: when the game exists and the user has no attempt in progress for
  it, the handler adds one attempt and answers with the score and accuracy that the validator
  computes for the submitted placements.
\<close>

theorem finalize_after_completion:
  assumes "distinct (map att_id (shape_attempts d))"
    and "uuid \<notin> set (map att_id (shape_attempts d))"
  shows "(upa_is_completed pa \<longrightarrow>
            complete_attempt pa score now d = (Inr pa, d)
            \<and> lm_complete_attempt ns pa score now d = (Inr pa, d))
    \<and> level_progress (snd (api_save_shape_game_state usr game_id data uuid now d))
        = level_progress d
    \<and> (\<forall>c \<in> set (shape_attempts d). att_status c \<noteq> IN_PROGRESS \<longrightarrow>
          c \<in> set (shape_attempts (snd (api_save_shape_game_state usr game_id data uuid now d))))
    \<and> (\<forall>game. get_game_or_404 game_id d = Inr game
          \<and> (\<forall>a \<in> set (shape_attempts d). \<not> (att_user a = usr \<and> att_shape_game a = sg_id game
                                                 \<and> att_status a = IN_PROGRESS))
          \<and> req_status data = Some ''completed'' \<longrightarrow>
          fst (api_save_shape_game_state usr game_id data uuid now d) =
            Success uuid
              (final_score (validate_shape_placement game
                 (case req_current_state data of None \<Rightarrow> [] | Some st \<Rightarrow> st)))
              (accuracy (validate_shape_placement game
                 (case req_current_state data of None \<Rightarrow> [] | Some st \<Rightarrow> st)))
          \<and> length (shape_attempts
                       (snd (api_save_shape_game_state usr game_id data uuid now d)))
              = Suc (length (shape_attempts d)))"
proof (intro conjI allI impI ballI)
  assume c: "upa_is_completed pa"
  then show "complete_attempt pa score now d = (Inr pa, d)"
    by (simp add: complete_attempt_def)
  from c show "lm_complete_attempt ns pa score now d = (Inr pa, d)"
    by (simp add: lm_complete_attempt_def)
next
  show "level_progress (snd (api_save_shape_game_state usr game_id data uuid now d))
        = level_progress d"
    by (rule api_save_keeps_progress)
next
  fix c assume "c \<in> set (shape_attempts d)" "att_status c \<noteq> IN_PROGRESS"
  with assms show
    "c \<in> set (shape_attempts (snd (api_save_shape_game_state usr game_id data uuid now d)))"
    by (rule api_save_keeps_finished)
next
  fix game
  assume h: "get_game_or_404 game_id d = Inr game
          \<and> (\<forall>a \<in> set (shape_attempts d). \<not> (att_user a = usr \<and> att_shape_game a = sg_id game
                                                 \<and> att_status a = IN_PROGRESS))
          \<and> req_status data = Some ''completed''"
  from api_save_new_attempt [OF assms(2), of game_id game usr data now] h
  show "fst (api_save_shape_game_state usr game_id data uuid now d) =
            Success uuid
              (final_score (validate_shape_placement game
                 (case req_current_state data of None \<Rightarrow> [] | Some st \<Rightarrow> st)))
              (accuracy (validate_shape_placement game
                 (case req_current_state data of None \<Rightarrow> [] | Some st \<Rightarrow> st)))"
    and "length (shape_attempts
                       (snd (api_save_shape_game_state usr game_id data uuid now d)))
              = Suc (length (shape_attempts d))"
    by blast+
qed

text \<open>
  Witness for C1: after the first finalize request, a second one with a wrong placement
  leaves the completed attempt stored and answers with score 0 for a new attempt.
\<close>

theorem finalize_after_completion_witness:
  "distinct (map att_id (shape_attempts finished_db))
   \<and> 102 \<notin> set (map att_id (shape_attempts finished_db))
   \<and> finished_attempt \<in> set (shape_attempts finished_db)
   \<and> att_status finished_attempt \<noteq> IN_PROGRESS
   \<and> finished_attempt \<in> set (shape_attempts
        (snd (api_save_shape_game_state 7 1 finalize_wrong 102 2000 finished_db)))
   \<and> get_game_or_404 1 finished_db = Inr scenario_game
   \<and> filter (\<lambda>a. att_user a = 7 \<and> att_shape_game a = sg_id scenario_game
                   \<and> att_status a = IN_PROGRESS) (shape_attempts finished_db) = []
   \<and> req_status finalize_wrong = Some ''completed''
   \<and> fst (api_save_shape_game_state 7 1 finalize_wrong 102 2000 finished_db) = Success 102 0 0
   \<and> length (shape_attempts
        (snd (api_save_shape_game_state 7 1 finalize_wrong 102 2000 finished_db))) = 2
   \<and> upa_is_completed (first_attempt\<lparr>upa_is_completed := True\<rparr>)
   \<and> complete_attempt (first_attempt\<lparr>upa_is_completed := True\<rparr>) 50 2000 finished_db
       = (Inr (first_attempt\<lparr>upa_is_completed := True\<rparr>), finished_db)
   \<and> lm_complete_attempt level_models_names (first_attempt\<lparr>upa_is_completed := True\<rparr>)
        50 2000 finished_db
       = (Inr (first_attempt\<lparr>upa_is_completed := True\<rparr>), finished_db)"
proof -
  have h1: "distinct (map att_id (shape_attempts finished_db))" by code_simp
  have h2: "102 \<notin> set (map att_id (shape_attempts finished_db))" by code_simp
  have m: "finished_attempt \<in> set (shape_attempts finished_db)"
    "att_status finished_attempt \<noteq> IN_PROGRESS" by code_simp+
  have g: "get_game_or_404 1 finished_db = Inr scenario_game"
    "req_status finalize_wrong = Some ''completed''" by code_simp+
  have r: "fst (api_save_shape_game_state 7 1 finalize_wrong 102 2000 finished_db)
            = Success 102 0 0" by code_simp
  have c: "upa_is_completed (first_attempt\<lparr>upa_is_completed := True\<rparr>)" by simp
  note t = finalize_after_completion [OF h1 h2,
      where pa = "first_attempt\<lparr>upa_is_completed := True\<rparr>" and score = 50
        and now = 2000 and usr = 7 and game_id = 1 and data = finalize_wrong
        and ns = level_models_names]
  have f: "filter (\<lambda>a. att_user a = 7 \<and> att_shape_game a = sg_id scenario_game
                   \<and> att_status a = IN_PROGRESS) (shape_attempts finished_db) = []"
    by code_simp
  then have na: "\<forall>a \<in> set (shape_attempts finished_db).
      \<not> (att_user a = 7 \<and> att_shape_game a = sg_id scenario_game \<and> att_status a = IN_PROGRESS)"
    by (simp add: filter_empty_conv)
  have two: "Suc (length (shape_attempts finished_db)) = 2" by code_simp
  from t g na have "length (shape_attempts
        (snd (api_save_shape_game_state 7 1 finalize_wrong 102 2000 finished_db)))
      = Suc (length (shape_attempts finished_db))"
    by blast
  with two have 0: "length (shape_attempts
        (snd (api_save_shape_game_state 7 1 finalize_wrong 102 2000 finished_db))) = 2"
    by simp
  from t m have 1: "finished_attempt \<in> set (shape_attempts
        (snd (api_save_shape_game_state 7 1 finalize_wrong 102 2000 finished_db)))"
    by blast
  from t c have 2: "complete_attempt (first_attempt\<lparr>upa_is_completed := True\<rparr>) 50 2000 finished_db
       = (Inr (first_attempt\<lparr>upa_is_completed := True\<rparr>), finished_db)"
    and 3: "lm_complete_attempt level_models_names (first_attempt\<lparr>upa_is_completed := True\<rparr>)
        50 2000 finished_db
       = (Inr (first_attempt\<lparr>upa_is_completed := True\<rparr>), finished_db)"
    by blast+
  from h1 h2 m g f r c 0 1 2 3 show ?thesis by blast
qed


section \<open>Achievements\<close>

lemma not_yet_earned_iff:
  "not_yet_earned usr d a \<longleftrightarrow> (usr, ach_id a) \<notin> set (granted_pairs d)"
proof -
  have "(usr, ach_id a) \<in> set (granted_pairs d) \<longleftrightarrow>
        (\<exists>ua \<in> set (user_achievements d). ua_user ua = usr \<and> ua_achievement ua = ach_id a)"
    by (auto simp: granted_pairs_def)
  then show ?thesis by (simp add: not_yet_earned_def filter_empty_conv)
qed

lemma set_achievements_to_award:
  "set (achievements_to_award usr d) =
     {a \<in> set (achievements d). qualifies usr d a \<and> not_yet_earned (user_id usr) d a}"
  by (auto simp: achievements_to_award_def qualifies_def Let_def)

lemma distinct_map_filter_append:
  assumes "distinct (map f xs)" and "\<And>x. \<not> (P x \<and> Q x)"
  shows "distinct (map f (filter P xs @ filter Q xs))"
proof -
  have inj: "inj_on f (set xs)" and d: "distinct xs" using assms(1) by (simp_all add: distinct_map)
  have "f ` {x \<in> set xs. P x} \<inter> f ` {x \<in> set xs. Q x} = {}"
  proof (rule ccontr)
    assume "f ` {x \<in> set xs. P x} \<inter> f ` {x \<in> set xs. Q x} \<noteq> {}"
    then obtain x y where "x \<in> set xs" "P x" "y \<in> set xs" "Q y" "f x = f y" by auto
    with inj have "x = y" by (meson inj_onD)
    with \<open>P x\<close> \<open>Q y\<close> assms(2) show False by blast
  qed
  then show ?thesis
    using assms(1) by (simp add: distinct_map_filter)
qed

lemma distinct_achievements_to_award:
  assumes "distinct (map ach_id (achievements d))"
  shows "distinct (map ach_id (achievements_to_award usr d))"
proof -
  let ?n = "not_yet_earned (user_id usr) d"
  let ?cl = "int (length (filter (\<lambda>r. lp_user r = user_id usr \<and> is_completed r)
                           (level_progress d)))"
  let ?tp = "int (length (filter (\<lambda>a. att_user a = user_id usr \<and> att_status a = COMPLETED)
                           (shape_attempts d)))"
  let ?L = "\<lambda>a. (requirement_type a = ''levels_completed''
                         \<and> requirement_value a \<le> ?cl \<and> ach_is_active a) \<and> ?n a"
  let ?P = "\<lambda>a. (requirement_type a = ''puzzles_solved''
                         \<and> requirement_value a \<le> ?tp \<and> ach_is_active a) \<and> ?n a"
  let ?S = "\<lambda>a. (requirement_type a = ''score_reached''
                         \<and> requirement_value a \<le> user_total_score usr \<and> ach_is_active a) \<and> ?n a"
  have 1: "distinct (map ach_id (filter ?P (achievements d) @ filter ?S (achievements d)))"
    using assms by (rule distinct_map_filter_append) auto
  have inj: "inj_on ach_id (set (achievements d))" using assms by (simp add: distinct_map)
  have 2: "distinct (map ach_id (filter ?L (achievements d)))"
    using assms by (rule distinct_map_filter)
  have 3: "ach_id ` {a \<in> set (achievements d). ?L a}
           \<inter> ach_id ` ({a \<in> set (achievements d). ?P a} \<union> {a \<in> set (achievements d). ?S a}) = {}"
  proof (rule ccontr)
    assume "ach_id ` {a \<in> set (achievements d). ?L a}
           \<inter> ach_id ` ({a \<in> set (achievements d). ?P a} \<union> {a \<in> set (achievements d). ?S a}) \<noteq> {}"
    then obtain x y where "x \<in> set (achievements d)" "?L x" "y \<in> set (achievements d)"
      "?P y \<or> ?S y" "ach_id x = ach_id y" by auto
    with inj have "x = y" by (meson inj_onD)
    with \<open>?L x\<close> \<open>?P y \<or> ?S y\<close> show False by auto
  qed
  have "achievements_to_award usr d =
          filter ?L (achievements d) @ (filter ?P (achievements d) @ filter ?S (achievements d))"
    by (simp add: achievements_to_award_def Let_def)
  with 1 2 3 show ?thesis by (simp add: image_Un)
qed

lemma award_achievements_effect:
  assumes "distinct (map ach_id to_award)"
    and "\<forall>a \<in> set to_award. (user_id usr, ach_id a) \<notin> set (granted_pairs d)"
  shows "\<exists>d'. award_achievements to_award usr d =
                 (Inr (usr\<lparr>user_total_score :=
                            user_total_score usr + sum_list (map points_reward to_award)\<rparr>), d')
              \<and> granted_pairs d' =
                  granted_pairs d @ map (\<lambda>a. (user_id usr, ach_id a)) to_award
              \<and> d' = d\<lparr>user_achievements := user_achievements d'\<rparr>"
  using assms
proof (induction to_award arbitrary: usr d)
  case Nil
  then show ?case by simp
next
  case (Cons a rest)
  define ua where "ua = \<lparr>ua_id = next_pk (map ua_id (user_achievements d)),
                         ua_user = user_id usr, ua_achievement = ach_id a\<rparr>"
  define d1 where "d1 = d\<lparr>user_achievements := user_achievements d @ [ua]\<rparr>"
  define usr1 where "usr1 = usr\<lparr>user_total_score := user_total_score usr + points_reward a\<rparr>"
  have "(user_id usr, ach_id a) \<notin> set (granted_pairs d)" using Cons.prems(2) by simp
  then have "not_yet_earned (user_id usr) d a" by (simp add: not_yet_earned_iff)
  then have "filter (\<lambda>ua. ua_user ua = user_id usr \<and> ua_achievement ua = ach_id a)
               (user_achievements d) = []"
    by (simp add: not_yet_earned_def)
  then have c: "create_user_achievement (user_id usr) (ach_id a) d = (Inr ua, d1)"
    by (simp add: create_user_achievement_def Let_def ua_def d1_def)
  have step: "award_achievements (a # rest) usr d = award_achievements rest usr1 d1"
    using c by (simp add: usr1_def)
  have pairs1: "granted_pairs d1 = granted_pairs d @ [(user_id usr, ach_id a)]"
    by (simp add: granted_pairs_def d1_def ua_def)
  have uid: "user_id usr1 = user_id usr" by (simp add: usr1_def)
  have d: "distinct (map ach_id rest)" using Cons.prems(1) by simp
  have fresh: "\<forall>b \<in> set rest. (user_id usr1, ach_id b) \<notin> set (granted_pairs d1)"
  proof
    fix b assume b: "b \<in> set rest"
    then have "ach_id b \<in> set (map ach_id rest)" by simp
    with Cons.prems(1) have "ach_id b \<noteq> ach_id a" by auto
    moreover have "(user_id usr, ach_id b) \<notin> set (granted_pairs d)"
      using Cons.prems(2) b by simp
    ultimately show "(user_id usr1, ach_id b) \<notin> set (granted_pairs d1)"
      by (simp add: pairs1 uid)
  qed
  from Cons.IH [OF d fresh] obtain d' where d':
    "award_achievements rest usr1 d1 =
       (Inr (usr1\<lparr>user_total_score :=
                  user_total_score usr1 + sum_list (map points_reward rest)\<rparr>), d')"
    "granted_pairs d' = granted_pairs d1 @ map (\<lambda>a. (user_id usr1, ach_id a)) rest"
    "d' = d1\<lparr>user_achievements := user_achievements d'\<rparr>"
    by blast
  have 1: "award_achievements (a # rest) usr d =
             (Inr (usr\<lparr>user_total_score :=
                        user_total_score usr + sum_list (map points_reward (a # rest))\<rparr>), d')"
    using step d'(1) by (simp add: usr1_def add.assoc)
  have 2: "granted_pairs d' = granted_pairs d @ map (\<lambda>a. (user_id usr, ach_id a)) (a # rest)"
    using d'(2) by (simp add: pairs1 uid)
  have 3: "d' = d\<lparr>user_achievements := user_achievements d'\<rparr>"
    using d'(3) by (simp add: d1_def)
  from 1 2 3 show ?case by blast
qed

lemma check_user_achievements_effect:
  assumes "distinct (map ach_id (achievements d))" and "distinct (granted_pairs d)"
  shows "\<exists>d'. check_user_achievements usr d = (Inr (achievements_to_award usr d), d')
           \<and> granted_pairs d' =
               granted_pairs d @ map (\<lambda>a. (user_id usr, ach_id a)) (achievements_to_award usr d)
           \<and> distinct (granted_pairs d')
           \<and> achievements d' = achievements d
           \<and> (achievements_to_award usr d \<noteq> [] \<longrightarrow>
                usr\<lparr>user_total_score := user_total_score usr
                       + sum_list (map points_reward (achievements_to_award usr d))\<rparr>
                  \<in> set (users d'))"
proof -
  let ?to = "achievements_to_award usr d"
  have dist: "distinct (map ach_id ?to)"
    using assms(1) by (rule distinct_achievements_to_award)
  have fresh: "\<forall>a \<in> set ?to. (user_id usr, ach_id a) \<notin> set (granted_pairs d)"
    by (simp add: set_achievements_to_award not_yet_earned_iff)
  from award_achievements_effect [OF dist fresh] obtain d1 where d1:
    "award_achievements ?to usr d =
       (Inr (usr\<lparr>user_total_score := user_total_score usr + sum_list (map points_reward ?to)\<rparr>),
        d1)"
    "granted_pairs d1 = granted_pairs d @ map (\<lambda>a. (user_id usr, ach_id a)) ?to"
    "d1 = d\<lparr>user_achievements := user_achievements d1\<rparr>"
    by blast
  let ?usr' = "usr\<lparr>user_total_score := user_total_score usr + sum_list (map points_reward ?to)\<rparr>"
  let ?d' = "if ?to \<noteq> [] then d1\<lparr>users := save_row user_id ?usr' (users d1)\<rparr> else d1"
  have r: "check_user_achievements usr d = (Inr ?to, ?d')"
    using d1(1) by (simp add: check_user_achievements_def Let_def)
  have p: "granted_pairs ?d' = granted_pairs d1" by (simp add: granted_pairs_def)
  have inj: "inj_on (\<lambda>a. (user_id usr, ach_id a)) (set ?to)"
    using dist by (auto simp: inj_on_def distinct_map)
  have "distinct (map (\<lambda>a. (user_id usr, ach_id a)) ?to)"
    using dist inj by (simp add: distinct_map)
  moreover have "set (granted_pairs d) \<inter> set (map (\<lambda>a. (user_id usr, ach_id a)) ?to) = {}"
    using fresh by auto
  ultimately have dd: "distinct (granted_pairs ?d')"
    using assms(2) by (simp only: p d1(2) distinct_append)
  have ach: "achievements ?d' = achievements d"
  proof -
    have "achievements d1 = achievements d" by (subst d1(3)) simp
    then show ?thesis by simp
  qed
  have us: "?to \<noteq> [] \<longrightarrow> ?usr' \<in> set (users ?d')"
    by (simp add: save_row_mem)
  have pp: "granted_pairs ?d' =
               granted_pairs d @ map (\<lambda>a. (user_id usr, ach_id a)) ?to"
    using p d1(2) by (rule trans)
  show ?thesis
    by (rule exI [of _ ?d']) (intro conjI r pp dd ach us)
qed

lemma fold_check_distinct:
  assumes "distinct (map ach_id (achievements d))" and "distinct (granted_pairs d)"
  shows "distinct (granted_pairs (fold (\<lambda>u d. snd (check_user_achievements u d)) usrs d))"
  using assms
proof (induction usrs arbitrary: d)
  case Nil
  then show ?case by simp
next
  case (Cons u usrs)
  from check_user_achievements_effect [OF Cons.prems, of u] obtain d' where
    "check_user_achievements u d = (Inr (achievements_to_award u d), d')"
    "distinct (granted_pairs d')" "achievements d' = achievements d"
    by blast
  with Cons.IH [of d'] Cons.prems(1) show ?case by simp
qed

lemma achievement_pass:
  "check_user_achievements player achievement_db =
     (Inr [first_level_badge, century_badge],
      achievement_db
        \<lparr>user_achievements :=
           [\<lparr>ua_id = 1, ua_user = 7, ua_achievement = 1\<rparr>,
            \<lparr>ua_id = 2, ua_user = 7, ua_achievement = 2\<rparr>],
         users := [\<lparr>user_id = 7, user_total_score = 180\<rparr>]\<rparr>)"
  by code_simp

lemma achievement_second_pass:
  "fst (check_user_achievements \<lparr>user_id = 7, user_total_score = 180\<rparr>
          (snd (check_user_achievements player achievement_db))) = Inr []"
  by code_simp

text \<open>
  Claim C8. In a database whose achievements have distinct keys and whose UserAchievement
  rows have distinct (user, achievement) pairs, one pass of \<open>check_user_achievements\<close>
  returns normally; the achievements it grants are exactly the active achievements whose
  requirement is met by the metric read at the start of the pass (completed levels, completed
  attempts, total score of the user instance) and that the user does not have; it adds one row
  for each and saves the user with the sum of their \<open>points_reward\<close> added to the total
  score. After any number of passes, for any users, the pairs are still distinct.
\<close>

theorem achievements_granted_once:
  assumes "distinct (map ach_id (achievements d))" and "distinct (granted_pairs d)"
  shows "fst (check_user_achievements usr d) = Inr (achievements_to_award usr d)
    \<and> set (achievements_to_award usr d) =
        {a \<in> set (achievements d).
           qualifies usr d a \<and> (user_id usr, ach_id a) \<notin> set (granted_pairs d)}
    \<and> granted_pairs (snd (check_user_achievements usr d)) =
        granted_pairs d @ map (\<lambda>a. (user_id usr, ach_id a)) (achievements_to_award usr d)
    \<and> (achievements_to_award usr d \<noteq> [] \<longrightarrow>
          usr\<lparr>user_total_score := user_total_score usr
                 + sum_list (map points_reward (achievements_to_award usr d))\<rparr>
            \<in> set (users (snd (check_user_achievements usr d))))
    \<and> distinct (granted_pairs (fold (\<lambda>u d. snd (check_user_achievements u d)) usrs d))"
proof -
  from check_user_achievements_effect [OF assms, of usr] obtain d' where d':
    "check_user_achievements usr d = (Inr (achievements_to_award usr d), d')"
    "granted_pairs d' =
       granted_pairs d @ map (\<lambda>a. (user_id usr, ach_id a)) (achievements_to_award usr d)"
    "achievements_to_award usr d \<noteq> [] \<longrightarrow>
                usr\<lparr>user_total_score := user_total_score usr
                       + sum_list (map points_reward (achievements_to_award usr d))\<rparr>
                  \<in> set (users d')"
    by blast
  have s: "set (achievements_to_award usr d) =
        {a \<in> set (achievements d).
           qualifies usr d a \<and> (user_id usr, ach_id a) \<notin> set (granted_pairs d)}"
    by (simp add: set_achievements_to_award not_yet_earned_iff)
  from d' s fold_check_distinct [OF assms, of usrs] show ?thesis by simp
qed

text \<open>
  Witness for C8: the player has one completed level and 120 points, so the pass grants
  the level badge and the score badge, not the puzzle badge; two passes leave one row for
  each pair.
\<close>

theorem achievements_granted_once_witness:
  "distinct (map ach_id (achievements achievement_db))
   \<and> distinct (granted_pairs achievement_db)
   \<and> fst (check_user_achievements player achievement_db)
       = Inr [first_level_badge, century_badge]
   \<and> granted_pairs (snd (check_user_achievements player achievement_db)) = [(7, 1), (7, 2)]
   \<and> distinct (granted_pairs
        (fold (\<lambda>u d. snd (check_user_achievements u d)) [player, player] achievement_db))"
proof -
  have h1: "distinct (map ach_id (achievements achievement_db))" by code_simp
  have h2: "distinct (granted_pairs achievement_db)" by code_simp
  have e: "achievements_to_award player achievement_db = [first_level_badge, century_badge]"
    by code_simp
  have g: "granted_pairs achievement_db = []" by code_simp
  have u: "user_id player = 7" "ach_id first_level_badge = 1" "ach_id century_badge = 2"
    by (simp_all add: player_def first_level_badge_def century_badge_def)
  from achievements_granted_once [OF h1 h2, of player "[player, player]"] h1 h2
  show ?thesis by (simp add: e g u)
qed


end
